theory Spec2Isabelle
  imports Complex_Main "HOL-Library.AList"
begin

section \<open>Picard MarkDuplicates report parsing (multiqc/modules/picard/MarkDuplicates.py)\<close>

text \<open>
  The module has one function, \<^verbatim>\<open>parse_reports\<close>. It walks the lines of every
  discovered log file, cuts them into per-sample metric blocks, stores one dictionary of
  fields per sample, drops samples without reads, and finally adds derived read counts
  and hands six of them to a bar plot.

  Conventions of the embedding:
  \<^item> text is \<open>string\<close>, a list of 8-bit characters, each standing for the code point of
    the same number: the model covers the lines whose code points are below 256;
  \<^item> a Python \<^verbatim>\<open>dict\<close> is an association list with distinct keys in insertion order:
    \<open>AList.update\<close> overwrites in place or appends, exactly as item assignment does,
    \<open>AList.delete\<close> is \<^verbatim>\<open>pop(k, None)\<close>, \<open>map_of\<close> is lookup;
  \<^item> a Python float is a value of a type \<open>'f\<close> that is left open, and the operations
    of floats that the module uses, \<^verbatim>\<open>float()\<close>, \<^verbatim>\<open>*\<close>, \<^verbatim>\<open>-\<close>, the literal \<^verbatim>\<open>2.0\<close> and
    \<^verbatim>\<open>== 0\<close>, are parameters: whatever rounding, infinities and NaN the floats have,
    the operations have;
  \<^item> these operations and the collaborators \<^verbatim>\<open>clean_s_name\<close> and \<^verbatim>\<open>ignore_samples\<close> of
    the base module are collected in \<open>env\<close>;
  \<^item> every exception the function can raise is a value of \<open>error\<close>, and a raising
    run returns \<open>Inl\<close> of it.
\<close>

subsection \<open>Values, records, errors\<close>

datatype 'f fieldvalue = Num 'f | Text string

type_synonym 'f metrics = "(string \<times> 'f fieldvalue) list"

type_synonym 'f collection = "(string \<times> 'f metrics) list"

datatype error = IndexError | KeyError string | TypeError

datatype event =
    Debug string
  | Warn string
  | DataSource string string

record logfile =
  fn :: string
  root :: string
  s_name :: string
  f_lines :: "string list"

text \<open>\<open>pyfloat\<close> is \<^verbatim>\<open>float(s)\<close>, with \<open>None\<close> for \<^verbatim>\<open>ValueError\<close>; \<open>float_mul\<close> and
  \<open>float_sub\<close> are \<^verbatim>\<open>x * y\<close> and \<^verbatim>\<open>x - y\<close> on floats, \<open>float_two\<close> is the literal
  \<^verbatim>\<open>2.0\<close>, and \<open>float_eq0\<close> is \<^verbatim>\<open>x == 0\<close> for a float \<open>x\<close>.\<close>

record 'f env =
  pyfloat :: "string \<Rightarrow> 'f option"
  float_mul :: "'f \<Rightarrow> 'f \<Rightarrow> 'f"
  float_sub :: "'f \<Rightarrow> 'f \<Rightarrow> 'f"
  float_two :: "'f"
  float_eq0 :: "'f \<Rightarrow> bool"
  clean_s_name :: "string \<Rightarrow> string \<Rightarrow> string"
  ignored :: "string \<Rightarrow> bool"

record 'f state =
  picard_dupMetrics_data :: "'f collection"
  events :: "event list"

subsection \<open>String primitives of Python used by the module\<close>

text \<open>
  \<^verbatim>\<open>str.lower\<close> on one character: the 26 letters, and the letters of code points 192
  to 222 (without the multiplication sign 215), which go to the code points 32 higher;
  every other character below 256 is left as it is.
\<close>

definition upper_letters :: string where
  "upper_letters = ''ABCDEFGHIJKLMNOPQRSTUVWXYZ''"

definition lower_letters :: string where
  "lower_letters = ''abcdefghijklmnopqrstuvwxyz''"

definition upper_latin :: string where
  "upper_latin =
     [CHR 0xC0, CHR 0xC1, CHR 0xC2, CHR 0xC3, CHR 0xC4, CHR 0xC5, CHR 0xC6, CHR 0xC7,
      CHR 0xC8, CHR 0xC9, CHR 0xCA, CHR 0xCB, CHR 0xCC, CHR 0xCD, CHR 0xCE, CHR 0xCF,
      CHR 0xD0, CHR 0xD1, CHR 0xD2, CHR 0xD3, CHR 0xD4, CHR 0xD5, CHR 0xD6,
      CHR 0xD8, CHR 0xD9, CHR 0xDA, CHR 0xDB, CHR 0xDC, CHR 0xDD, CHR 0xDE]"

definition lower_latin :: string where
  "lower_latin =
     [CHR 0xE0, CHR 0xE1, CHR 0xE2, CHR 0xE3, CHR 0xE4, CHR 0xE5, CHR 0xE6, CHR 0xE7,
      CHR 0xE8, CHR 0xE9, CHR 0xEA, CHR 0xEB, CHR 0xEC, CHR 0xED, CHR 0xEE, CHR 0xEF,
      CHR 0xF0, CHR 0xF1, CHR 0xF2, CHR 0xF3, CHR 0xF4, CHR 0xF5, CHR 0xF6,
      CHR 0xF8, CHR 0xF9, CHR 0xFA, CHR 0xFB, CHR 0xFC, CHR 0xFD, CHR 0xFE]"

definition lower_char :: "char \<Rightarrow> char" where
  "lower_char c =
     (case map_of (zip (upper_letters @ upper_latin) (lower_letters @ lower_latin)) c of
        Some d \<Rightarrow> d
      | None \<Rightarrow> c)"

text \<open>The upper case of a character and the test for a letter, as \<^verbatim>\<open>str.title\<close> needs
  them on ASCII text; the module calls \<^verbatim>\<open>title()\<close> on the names of \<open>keys_r\<close> only.\<close>

definition upper_char :: "char \<Rightarrow> char" where
  "upper_char c = (case map_of (zip lower_letters upper_letters) c of Some d \<Rightarrow> d | None \<Rightarrow> c)"

definition is_alpha :: "char \<Rightarrow> bool" where
  "is_alpha c \<longleftrightarrow> c \<in> set upper_letters \<or> c \<in> set lower_letters"

text \<open>\<^verbatim>\<open>\s\<close> of a \<^verbatim>\<open>str\<close> pattern on a character below 256: tab, newline, vertical tab,
  form feed, carriage return, the four separators 28 to 31, space, the next-line control
  133 and the no-break space 160.\<close>

definition is_space :: "char \<Rightarrow> bool" where
  "is_space c \<longleftrightarrow>
     c \<in> set [CHR 0x09, CHR 0x0A, CHR 0x0B, CHR 0x0C, CHR 0x0D,
               CHR 0x1C, CHR 0x1D, CHR 0x1E, CHR 0x1F, CHR 0x20, CHR 0x85, CHR 0xA0]"

definition lower :: "string \<Rightarrow> string" where
  "lower s = map lower_char s"

text \<open>\<^verbatim>\<open>s.startswith(p)\<close>.\<close>

fun startswith :: "string \<Rightarrow> string \<Rightarrow> bool" where
  "startswith s [] = True"
| "startswith [] (p # ps) = False"
| "startswith (c # cs) (p # ps) = (c = p \<and> startswith cs ps)"

text \<open>\<^verbatim>\<open>sub in s\<close>.\<close>

fun str_in :: "string \<Rightarrow> string \<Rightarrow> bool" where
  "str_in sub [] = (sub = [])"
| "str_in sub (c # cs) = (startswith (c # cs) sub \<or> str_in sub cs)"

text \<open>\<^verbatim>\<open>s.rstrip("\n")\<close>.\<close>

definition rstrip_nl :: "string \<Rightarrow> string" where
  "rstrip_nl s = rev (dropWhile (\<lambda>c. c = CHR 0x0A) (rev s))"

text \<open>\<^verbatim>\<open>s.split("\t")\<close>: never empty, one more piece than there are tabs.\<close>

fun split_tab :: "string \<Rightarrow> string list" where
  "split_tab [] = [[]]"
| "split_tab (c # cs) =
     (if c = CHR 0x09 then [] # split_tab cs
      else (case split_tab cs of [] \<Rightarrow> [[c]] | w # ws \<Rightarrow> (c # w) # ws))"

text \<open>\<^verbatim>\<open>s.strip('[]')\<close>.\<close>

definition strip_brackets :: "string \<Rightarrow> string" where
  "strip_brackets s =
     rev (dropWhile (\<lambda>c. c = CHR ''['' \<or> c = CHR '']'')
       (rev (dropWhile (\<lambda>c. c = CHR ''['' \<or> c = CHR '']'') s)))"

text \<open>\<^verbatim>\<open>os.path.basename(p)\<close> (POSIX): what follows the last slash.\<close>

definition basename :: "string \<Rightarrow> string" where
  "basename p = rev (takeWhile (\<lambda>c. c \<noteq> CHR ''/'') (rev p))"

text \<open>\<^verbatim>\<open>s.replace(old, new)\<close>: occurrences of \<open>old\<close> are replaced from left to right,
  without overlap; an empty \<open>old\<close> matches before every character and at the end.\<close>

fun replace_ne :: "string \<Rightarrow> string \<Rightarrow> string \<Rightarrow> string" where
  "replace_ne old new [] = []"
| "replace_ne old new (c # cs) =
     (if startswith (c # cs) old
      then new @ replace_ne old new (drop (length old - 1) cs)
      else c # replace_ne old new cs)"

definition replace :: "string \<Rightarrow> string \<Rightarrow> string \<Rightarrow> string" where
  "replace s old new =
     (if old = [] then new @ concat (map (\<lambda>c. c # new) s) else replace_ne old new s)"

text \<open>\<^verbatim>\<open>s.title()\<close> on ASCII text: a letter that follows a letter is lowered, any
  other letter is raised.\<close>

fun title_from :: "bool \<Rightarrow> string \<Rightarrow> string" where
  "title_from prev [] = []"
| "title_from prev (c # cs) =
     (if prev then lower_char c else upper_char c) # title_from (is_alpha c) cs"

definition title :: "string \<Rightarrow> string" where
  "title s = title_from False s"

subsection \<open>Block starts and the sample name taken from them\<close>

text \<open>Line 35: \<^verbatim>\<open>'markduplicates' in l.lower() and 'input' in l.lower()\<close>; line 45:
  \<^verbatim>\<open>'UNPAIRED_READ_DUPLICATES' in l\<close>.\<close>

definition is_block_start :: "string \<Rightarrow> bool" where
  "is_block_start l \<longleftrightarrow> str_in ''markduplicates'' (lower l) \<and> str_in ''input'' (lower l)"

definition is_header :: "string \<Rightarrow> bool" where
  "is_header l \<longleftrightarrow> str_in ''UNPAIRED_READ_DUPLICATES'' l"

text \<open>
  Line 39: \<^verbatim>\<open>re.search(r"INPUT(?:=|\s+)(\[?[^\s]+\]?)", l, flags=re.IGNORECASE)\<close>.
  Nothing follows the group in the pattern and all its parts are greedy, so at a position
  where the pattern matches, group 1 is the whole run of non-space characters after the
  separator: \<open>token\<close>. The separator is one \<^verbatim>\<open>=\<close>, or a whole run of spaces.
  \<open>match_at\<close> is the match anchored at the start of its argument, \<open>re_search\<close> tries every
  start from left to right and returns group 1 of the first match.
\<close>

definition token :: "string \<Rightarrow> string" where
  "token s = takeWhile (\<lambda>c. \<not> is_space c) s"

definition match_at :: "string \<Rightarrow> string option" where
  "match_at s =
     (if lower (take 5 s) = ''input'' then
        (case drop 5 s of
           [] \<Rightarrow> None
         | c # r \<Rightarrow>
             if c = CHR ''='' then (if token r = [] then None else Some (token r))
             else if is_space c then
               (if token (dropWhile is_space r) = [] then None
                else Some (token (dropWhile is_space r)))
             else None)
      else None)"

fun re_search :: "string \<Rightarrow> string option" where
  "re_search [] = None"
| "re_search (c # cs) =
     (case match_at (c # cs) of Some g \<Rightarrow> Some g | None \<Rightarrow> re_search cs)"

text \<open>Lines 36 to 42: the pending name after a block-start line.\<close>

definition input_name :: "'f env \<Rightarrow> string \<Rightarrow> string \<Rightarrow> string option" where
  "input_name E rt l =
     (case re_search l of
        None \<Rightarrow> None
      | Some g \<Rightarrow> Some (clean_s_name E (basename (strip_brackets g)) rt))"

subsection \<open>Parsing one header row and its value row\<close>

text \<open>Lines 53 to 56: \<^verbatim>\<open>float(v)\<close>, and the text itself on \<^verbatim>\<open>ValueError\<close>.\<close>

definition coerce :: "(string \<Rightarrow> 'f option) \<Rightarrow> string \<Rightarrow> 'f fieldvalue" where
  "coerce fl v = (case fl v of Some x \<Rightarrow> Num x | None \<Rightarrow> Text v)"

text \<open>\<^verbatim>\<open>self.picard_dupMetrics_data[n][k] = v\<close>.\<close>

definition set_field ::
  "string \<Rightarrow> string \<Rightarrow> 'f fieldvalue \<Rightarrow> 'f collection \<Rightarrow> error + 'f collection" where
  "set_field n k v d =
     (case map_of d n of
        None \<Rightarrow> Inl (KeyError n)
      | Some r \<Rightarrow> Inr (AList.update n (AList.update k v r) d))"

text \<open>Lines 52 to 56, the loop \<^verbatim>\<open>for i, k in enumerate(keys)\<close> from index \<open>i\<close> on.
  \<^verbatim>\<open>vals[i]\<close> is evaluated first and raises \<^verbatim>\<open>IndexError\<close> out of range; only
  \<^verbatim>\<open>ValueError\<close> is caught.\<close>

fun fill_fields ::
  "(string \<Rightarrow> 'f option) \<Rightarrow> string \<Rightarrow> nat \<Rightarrow> string list \<Rightarrow> string list \<Rightarrow> 'f collection
     \<Rightarrow> error + 'f collection" where
  "fill_fields fl n i [] vals d = Inr d"
| "fill_fields fl n i (k # ks) vals d =
     (if i < length vals then
        (case set_field n k (coerce fl (vals ! i)) d of
           Inl e \<Rightarrow> Inl e
         | Inr d' \<Rightarrow> fill_fields fl n (Suc i) ks vals d')
      else Inl IndexError)"

text \<open>\<^verbatim>\<open>r.get(k, 0) == 0\<close>: the default \<^verbatim>\<open>0\<close> of a missing key equals 0, a float is
  compared as floats are, a text never equals 0. Then the test of lines 58 and 59.\<close>

definition get_eq0 :: "'f env \<Rightarrow> 'f metrics \<Rightarrow> string \<Rightarrow> bool" where
  "get_eq0 E r k =
     (case map_of r k of
        None \<Rightarrow> True
      | Some (Num x) \<Rightarrow> float_eq0 E x
      | Some (Text t) \<Rightarrow> False)"

definition no_reads :: "'f env \<Rightarrow> 'f metrics \<Rightarrow> bool" where
  "no_reads E r \<longleftrightarrow>
     get_eq0 E r ''READ_PAIRS_EXAMINED'' \<and> get_eq0 E r ''UNPAIRED_READS_EXAMINED''"

definition msg_duplicate :: "string \<Rightarrow> string \<Rightarrow> string" where
  "msg_duplicate file n = ''Duplicate sample name found in '' @ file @ ''! Overwriting: '' @ n"

definition msg_no_reads :: "string \<Rightarrow> string" where
  "msg_no_reads n =
     ''Skipping MarkDuplicates sample '' @ [CHR 0x27] @ n @ [CHR 0x27] @
     '' as log contained no reads''"

definition msg_no_data :: "string \<Rightarrow> string" where
  "msg_no_data n = ''Removing '' @ n @ '' as no data parsed''"

text \<open>Lines 46 to 61 for the pending name \<open>n\<close>, the header line \<open>l\<close> and the line \<open>v\<close>
  that \<^verbatim>\<open>readline()\<close> returned.\<close>

definition process_block ::
  "'f env \<Rightarrow> logfile \<Rightarrow> string \<Rightarrow> string \<Rightarrow> string \<Rightarrow> 'f state \<Rightarrow> error + 'f state" where
  "process_block E f n l v st =
     (let ev1 = (if map_of (picard_dupMetrics_data st) n \<noteq> None
                 then events st @ [Debug (msg_duplicate (fn f) n)] else events st);
          ev2 = ev1 @ [DataSource (fn f) n];
          d1 = AList.update n [] (picard_dupMetrics_data st);
          keys = split_tab (rstrip_nl l);
          vals = split_tab (rstrip_nl v)
      in case fill_fields (pyfloat E) n 0 keys vals d1 of
           Inl e \<Rightarrow> Inl e
         | Inr d2 \<Rightarrow>
             (case map_of d2 n of
                None \<Rightarrow> Inl (KeyError n)
              | Some r \<Rightarrow>
                  if no_reads E r
                  then Inr \<lparr>picard_dupMetrics_data = AList.delete n d2,
                            events = ev2 @ [Warn (msg_no_reads n)]\<rparr>
                  else Inr \<lparr>picard_dupMetrics_data = d2, events = ev2\<rparr>))"

subsection \<open>Scanning a file and all files\<close>

text \<open>
  Lines 33 to 62. The file handle is the list of the lines not yet read; the pending
  sample name is \<open>None\<close> or \<open>Some n\<close>. A header line takes the next line off the handle
  with \<^verbatim>\<open>readline()\<close>, which returns the empty string at the end of the file.
\<close>

fun scan_lines ::
  "'f env \<Rightarrow> logfile \<Rightarrow> string option \<Rightarrow> string list \<Rightarrow> 'f state \<Rightarrow> error + 'f state" where
  "scan_lines E f pending [] st = Inr st"
| "scan_lines E f pending (l # ls) st =
     (case (if is_block_start l then input_name E (root f) l else pending) of
        None \<Rightarrow> scan_lines E f None ls st
      | Some n \<Rightarrow>
          if is_header l then
            (case ls of
               [] \<Rightarrow> process_block E f n l [] st
             | v # rest \<Rightarrow>
                 (case process_block E f n l v st of
                    Inl e \<Rightarrow> Inl e
                  | Inr st' \<Rightarrow> scan_lines E f None rest st'))
          else scan_lines E f (Some n) ls st)"

text \<open>Lines 64 to 67, over the names listed before the loop starts.\<close>

fun remove_empty :: "string list \<Rightarrow> 'f state \<Rightarrow> error + 'f state" where
  "remove_empty [] st = Inr st"
| "remove_empty (n # ns) st =
     (case map_of (picard_dupMetrics_data st) n of
        None \<Rightarrow> Inl (KeyError n)
      | Some r \<Rightarrow>
          if length r = 0
          then remove_empty ns
                 \<lparr>picard_dupMetrics_data = AList.delete n (picard_dupMetrics_data st),
                  events = events st @ [Debug (msg_no_data n)]\<rparr>
          else remove_empty ns st)"

text \<open>One turn of the loop of line 31.\<close>

definition scan_file :: "'f env \<Rightarrow> logfile \<Rightarrow> 'f state \<Rightarrow> error + 'f state" where
  "scan_file E f st =
     (case scan_lines E f (Some (s_name f)) (f_lines f) st of
        Inl e \<Rightarrow> Inl e
      | Inr st' \<Rightarrow> remove_empty (map fst (picard_dupMetrics_data st')) st')"

fun scan_files :: "'f env \<Rightarrow> logfile list \<Rightarrow> 'f state \<Rightarrow> error + 'f state" where
  "scan_files E [] st = Inr st"
| "scan_files E (f # fs) st =
     (case scan_file E f st of Inl e \<Rightarrow> Inl e | Inr st' \<Rightarrow> scan_files E fs st')"

subsection \<open>After the scan: filter, general statistics, derived metrics, plot\<close>

text \<open>Modelled from the spec: \<^verbatim>\<open>ignore_samples\<close> of the base module is not part of this
  file. The exclusion collaborator removes the entries whose names match the ignore rules
  and neither reorders nor changes the others; the rules are the predicate \<open>ignored\<close>.\<close>

definition ignore_samples :: "'f env \<Rightarrow> 'f collection \<Rightarrow> 'f collection" where
  "ignore_samples E d = filter (\<lambda>p. \<not> ignored E (fst p)) d"

text \<open>\<^verbatim>\<open>a.update(b)\<close> on dictionaries.\<close>

definition dict_update :: "'f metrics \<Rightarrow> 'f metrics \<Rightarrow> 'f metrics" where
  "dict_update a b = fold (\<lambda>p. AList.update (fst p) (snd p)) b a"

text \<open>Lines 88 to 91.\<close>

fun add_general_stats :: "'f collection \<Rightarrow> 'f collection \<Rightarrow> 'f collection" where
  "add_general_stats [] gs = gs"
| "add_general_stats ((n, metr) # rest) gs =
     add_general_stats rest
       (AList.update n
          (dict_update (case map_of gs n of None \<Rightarrow> [] | Some r \<Rightarrow> r) metr) gs)"

text \<open>\<^verbatim>\<open>metr[k]\<close>, \<^verbatim>\<open>2.0 * x\<close> and \<^verbatim>\<open>x - y\<close> on field values: a missing key raises
  \<^verbatim>\<open>KeyError\<close>, a text operand raises \<^verbatim>\<open>TypeError\<close>, and on floats the product and the
  difference are those of floats.\<close>

definition getitem :: "'f metrics \<Rightarrow> string \<Rightarrow> error + 'f fieldvalue" where
  "getitem m k = (case map_of m k of None \<Rightarrow> Inl (KeyError k) | Some v \<Rightarrow> Inr v)"

definition twice :: "'f env \<Rightarrow> 'f \<Rightarrow> 'f" where
  "twice E x = float_mul E (float_two E) x"

fun times2 :: "'f env \<Rightarrow> 'f fieldvalue \<Rightarrow> error + 'f fieldvalue" where
  "times2 E (Num x) = Inr (Num (twice E x))"
| "times2 E (Text t) = Inl TypeError"

fun minus_fv :: "'f env \<Rightarrow> 'f fieldvalue \<Rightarrow> 'f fieldvalue \<Rightarrow> error + 'f fieldvalue" where
  "minus_fv E (Num x) (Num y) = Inr (Num (float_sub E x y))"
| "minus_fv E (Text t) y = Inl TypeError"
| "minus_fv E x (Text t) = Inl TypeError"

definition and_then :: "error + 'a \<Rightarrow> ('a \<Rightarrow> error + 'b) \<Rightarrow> error + 'b" where
  "and_then m g = (case m of Inl e \<Rightarrow> Inl e | Inr x \<Rightarrow> g x)"

text \<open>Lines 98 to 104 for one record, statement by statement, operands from left to
  right.\<close>

definition derive_metrics :: "'f env \<Rightarrow> 'f metrics \<Rightarrow> error + 'f metrics" where
  "derive_metrics E m0 =
     and_then (getitem m0 ''READ_PAIR_DUPLICATES'') (\<lambda>a.
     and_then (times2 E a) (\<lambda>v1.
     let m1 = AList.update ''READS_IN_DUPLICATE_PAIRS'' v1 m0 in
     and_then (getitem m1 ''READ_PAIRS_EXAMINED'') (\<lambda>b.
     and_then (getitem m1 ''READ_PAIR_DUPLICATES'') (\<lambda>c.
     and_then (minus_fv E b c) (\<lambda>bc.
     and_then (times2 E bc) (\<lambda>v2.
     let m2 = AList.update ''READS_IN_UNIQUE_PAIRS'' v2 m1 in
     and_then (getitem m2 ''UNPAIRED_READS_EXAMINED'') (\<lambda>d.
     and_then (getitem m2 ''UNPAIRED_READ_DUPLICATES'') (\<lambda>e.
     and_then (minus_fv E d e) (\<lambda>v3.
     let m3 = AList.update ''READS_IN_UNIQUE_UNPAIRED'' v3 m2 in
     and_then (getitem m3 ''READ_PAIR_OPTICAL_DUPLICATES'') (\<lambda>g.
     and_then (times2 E g) (\<lambda>v4.
     let m4 = AList.update ''READS_IN_DUPLICATE_PAIRS_OPTICAL'' v4 m3 in
     and_then (getitem m4 ''READS_IN_DUPLICATE_PAIRS'') (\<lambda>h.
     and_then (getitem m4 ''READS_IN_DUPLICATE_PAIRS_OPTICAL'') (\<lambda>i.
     and_then (minus_fv E h i) (\<lambda>v5.
     let m5 = AList.update ''READS_IN_DUPLICATE_PAIRS_NONOPTICAL'' v5 m4 in
     and_then (getitem m5 ''UNPAIRED_READ_DUPLICATES'') (\<lambda>v6.
     let m6 = AList.update ''READS_IN_DUPLICATE_UNPAIRED'' v6 m5 in
     and_then (getitem m6 ''UNMAPPED_READS'') (\<lambda>v7.
     Inr (AList.update ''READS_UNMAPPED'' v7 m6)))))))))))))))))"

text \<open>The loop of line 97: the records are changed in place, in the order of the
  collection, until one raises.\<close>

fun derive_all :: "'f env \<Rightarrow> 'f collection \<Rightarrow> error + 'f collection" where
  "derive_all E [] = Inr []"
| "derive_all E ((n, metr) # rest) =
     (case derive_metrics E metr of
        Inl e \<Rightarrow> Inl e
      | Inr metr' \<Rightarrow>
          (case derive_all E rest of
             Inl e \<Rightarrow> Inl e
           | Inr rest' \<Rightarrow> Inr ((n, metr') # rest')))"

text \<open>Lines 106 to 116: the categories of the bar plot, each with its \<^verbatim>\<open>'name'\<close>.\<close>

definition keys_r :: "string list" where
  "keys_r =
     [''READS_IN_UNIQUE_PAIRS'',
      ''READS_IN_UNIQUE_UNPAIRED'',
      ''READS_IN_DUPLICATE_PAIRS_OPTICAL'',
      ''READS_IN_DUPLICATE_PAIRS_NONOPTICAL'',
      ''READS_IN_DUPLICATE_UNPAIRED'',
      ''READS_UNMAPPED'']"

definition key_label :: "string \<Rightarrow> string" where
  "key_label k = title (replace (replace (replace k ''READS_'' []) ''IN_'' []) ''_'' '' '')"

definition plot_keys :: "(string \<times> string) list" where
  "plot_keys = map (\<lambda>k. (k, key_label k)) keys_r"

text \<open>
  What a run leaves behind: the collection, the general statistics table, the categories
  given to \<^verbatim>\<open>bargraph.plot\<close> together with the collection (\<open>None\<close> when no section is
  added), the log, and the returned number of samples. The constant plot and column
  configuration and the call of \<^verbatim>\<open>write_data_file\<close> pass through unchanged and are left out.
\<close>

record 'f report =
  final :: "'f collection"
  general_stats_data :: "'f collection"
  plot :: "(string \<times> string) list option"
  logged :: "event list"
  returned :: nat

text \<open>\<^verbatim>\<open>parse_reports\<close>; \<open>fs\<close> is what \<^verbatim>\<open>find_log_files\<close> yields, \<open>gs\<close> the general
  statistics table as the module finds it.\<close>

definition parse_reports ::
  "'f env \<Rightarrow> 'f collection \<Rightarrow> logfile list \<Rightarrow> error + 'f report" where
  "parse_reports E gs fs =
     (case scan_files E fs \<lparr>picard_dupMetrics_data = [], events = []\<rparr> of
        Inl e \<Rightarrow> Inl e
      | Inr st \<Rightarrow>
          (let d = ignore_samples E (picard_dupMetrics_data st) in
           if length d > 0 then
             (case derive_all E d of
                Inl e \<Rightarrow> Inl e
              | Inr d' \<Rightarrow>
                  Inr \<lparr>final = d', general_stats_data = add_general_stats d gs,
                       plot = Some plot_keys, logged = events st, returned = length d'\<rparr>)
           else
             Inr \<lparr>final = d, general_stats_data = gs, plot = None,
                  logged = events st, returned = length d\<rparr>))"

subsection \<open>A concrete environment\<close>

text \<open>
  For running the model on concrete files, floats are taken as reals with the exact
  product and difference, which is what floats compute on the small whole numbers used
  below. \<open>float_digits\<close> is \<^verbatim>\<open>float()\<close> on the texts that consist of decimal digits only,
  the form of Picard's read counts (on any other text it answers \<^verbatim>\<open>ValueError\<close>, which
  agrees with Python on the texts used below); the name cleaner returns the name as it
  is, and nothing is ignored.
\<close>

definition digit_val :: "char \<Rightarrow> nat option" where
  "digit_val c = map_of (zip ''0123456789'' [0, 1, 2, 3, 4, 5, 6, 7, 8, 9]) c"

fun digits_from :: "nat \<Rightarrow> string \<Rightarrow> nat option" where
  "digits_from acc [] = Some acc"
| "digits_from acc (c # cs) =
     (case digit_val c of None \<Rightarrow> None | Some d \<Rightarrow> digits_from (10 * acc + d) cs)"

definition float_digits :: "string \<Rightarrow> real option" where
  "float_digits s =
     (if s = [] then None
      else (case digits_from 0 s of None \<Rightarrow> None | Some k \<Rightarrow> Some (real k)))"

definition env0 :: "real env" where
  "env0 =
     \<lparr>pyfloat = float_digits, float_mul = (\<lambda>x y. x * y), float_sub = (\<lambda>x y. x - y),
      float_two = 2, float_eq0 = (\<lambda>x. x = 0),
      clean_s_name = (\<lambda>nm rt. nm), ignored = (\<lambda>nm. False)\<rparr>"

subsection \<open>Field names of the derived step\<close>

text \<open>The raw fields read by lines 98 to 104, those among them that enter a
  multiplication or a subtraction, and the fields the lines write, in the order written.\<close>

definition required_raw :: "string list" where
  "required_raw =
     [''READ_PAIR_DUPLICATES'', ''READ_PAIRS_EXAMINED'', ''UNPAIRED_READS_EXAMINED'',
      ''UNPAIRED_READ_DUPLICATES'', ''READ_PAIR_OPTICAL_DUPLICATES'', ''UNMAPPED_READS'']"

definition arithmetic_raw :: "string list" where
  "arithmetic_raw =
     [''READ_PAIR_DUPLICATES'', ''READ_PAIRS_EXAMINED'', ''UNPAIRED_READS_EXAMINED'',
      ''UNPAIRED_READ_DUPLICATES'', ''READ_PAIR_OPTICAL_DUPLICATES'']"

definition derived_names :: "string list" where
  "derived_names =
     [''READS_IN_DUPLICATE_PAIRS'', ''READS_IN_UNIQUE_PAIRS'', ''READS_IN_UNIQUE_UNPAIRED'',
      ''READS_IN_DUPLICATE_PAIRS_OPTICAL'', ''READS_IN_DUPLICATE_PAIRS_NONOPTICAL'',
      ''READS_IN_DUPLICATE_UNPAIRED'', ''READS_UNMAPPED'']"

subsection \<open>The rows that a scan parses\<close>

text \<open>
  Which lines the loop of lines 33 to 62 takes as header rows, under which name, and
  which line it reads as the value row, does not depend on the collection: it is decided
  by the block-start test, the header test and the pending name alone. \<open>parsed_rows\<close> is
  this control flow of \<open>scan_lines\<close> by itself, the list of the triples of name, header
  line and value line in the order they are met; \<open>file_rows\<close> starts it as line 32 does,
  with the name of the file, and \<open>all_rows\<close> lists the rows of all files in the order of
  the files. \<open>run_rows\<close> is lines 46 to 61 done on such rows one after the other.
\<close>

fun parsed_rows ::
  "'f env \<Rightarrow> logfile \<Rightarrow> string option \<Rightarrow> string list \<Rightarrow> (string \<times> string \<times> string) list" where
  "parsed_rows E f pending [] = []"
| "parsed_rows E f pending (l # ls) =
     (case (if is_block_start l then input_name E (root f) l else pending) of
        None \<Rightarrow> parsed_rows E f None ls
      | Some n \<Rightarrow>
          if is_header l then
            (case ls of
               [] \<Rightarrow> [(n, l, [])]
             | v # rest \<Rightarrow> (n, l, v) # parsed_rows E f None rest)
          else parsed_rows E f (Some n) ls)"

definition file_rows :: "'f env \<Rightarrow> logfile \<Rightarrow> (logfile \<times> string \<times> string \<times> string) list" where
  "file_rows E f = map (\<lambda>r. (f, r)) (parsed_rows E f (Some (s_name f)) (f_lines f))"

definition all_rows :: "'f env \<Rightarrow> logfile list \<Rightarrow> (logfile \<times> string \<times> string \<times> string) list" where
  "all_rows E fs = concat (map (file_rows E) fs)"

fun run_rows ::
  "'f env \<Rightarrow> (logfile \<times> string \<times> string \<times> string) list \<Rightarrow> 'f state \<Rightarrow> error + 'f state" where
  "run_rows E [] st = Inr st"
| "run_rows E ((f, n, l, v) # rs) st =
     (case process_block E f n l v st of
        Inl e \<Rightarrow> Inl e
      | Inr st' \<Rightarrow> run_rows E rs st')"

text \<open>A row whose value line has fewer fields than its header line, and the name of a
  row.\<close>

definition short_row :: "logfile \<times> string \<times> string \<times> string \<Rightarrow> bool" where
  "short_row x \<longleftrightarrow>
     (case x of (f, n, l, v) \<Rightarrow>
        length (split_tab (rstrip_nl v)) < length (split_tab (rstrip_nl l)))"

definition row_name :: "logfile \<times> string \<times> string \<times> string \<Rightarrow> string" where
  "row_name x = (case x of (f, n, l, v) \<Rightarrow> n)"

subsection \<open>Concrete log files\<close>

text \<open>A line of a metrics table: cells joined by tabs, ended by a newline.\<close>

fun tab_join :: "string list \<Rightarrow> string" where
  "tab_join [] = []"
| "tab_join [c] = c"
| "tab_join (c # cs) = c @ CHR 0x09 # tab_join cs"

definition row :: "string list \<Rightarrow> string" where
  "row cells = tab_join cells @ [CHR 0x0A]"

definition start_line :: "string \<Rightarrow> string" where
  "start_line path = ''# MarkDuplicates INPUT='' @ path @ '' OUTPUT=out.bam'' @ [CHR 0x0A]"

definition header_cols :: "string list" where
  "header_cols =
     [''LIBRARY'', ''UNPAIRED_READS_EXAMINED'', ''READ_PAIRS_EXAMINED'', ''UNMAPPED_READS'',
      ''UNPAIRED_READ_DUPLICATES'', ''READ_PAIR_DUPLICATES'', ''READ_PAIR_OPTICAL_DUPLICATES'']"

definition good_vals :: "string list" where
  "good_vals = [''lib1'', ''0'', ''100'', ''5'', ''0'', ''10'', ''2'']"

definition other_vals :: "string list" where
  "other_vals = [''lib2'', ''4'', ''50'', ''1'', ''2'', ''6'', ''1'']"

definition zero_vals :: "string list" where
  "zero_vals = [''lib0'', ''0'', ''0'', ''0'', ''0'', ''0'', ''0'']"

definition log_with :: "string \<Rightarrow> string list \<Rightarrow> logfile" where
  "log_with name ls = \<lparr>fn = name @ ''.txt'', root = ''/logs'', s_name = name, f_lines = ls\<rparr>"

text \<open>The record of \<open>good_vals\<close> as parsed, and with the derived fields.\<close>

definition good_raw :: "real metrics" where
  "good_raw =
     [(''LIBRARY'', Text ''lib1''), (''UNPAIRED_READS_EXAMINED'', Num 0),
      (''READ_PAIRS_EXAMINED'', Num 100), (''UNMAPPED_READS'', Num 5),
      (''UNPAIRED_READ_DUPLICATES'', Num 0), (''READ_PAIR_DUPLICATES'', Num 10),
      (''READ_PAIR_OPTICAL_DUPLICATES'', Num 2)]"

definition good_derived :: "real metrics" where
  "good_derived = good_raw @
     [(''READS_IN_DUPLICATE_PAIRS'', Num 20), (''READS_IN_UNIQUE_PAIRS'', Num 180),
      (''READS_IN_UNIQUE_UNPAIRED'', Num 0), (''READS_IN_DUPLICATE_PAIRS_OPTICAL'', Num 4),
      (''READS_IN_DUPLICATE_PAIRS_NONOPTICAL'', Num 16),
      (''READS_IN_DUPLICATE_UNPAIRED'', Num 0), (''READS_UNMAPPED'', Num 5)]"

text \<open>A log with one block for \<open>sampleA.bam\<close>, and what \<^verbatim>\<open>parse_reports\<close> makes of
  it.\<close>

definition log_a :: logfile where
  "log_a = log_with ''a'' [start_line ''/data/sampleA.bam'', row header_cols, row good_vals]"

definition report_a :: "real report" where
  "report_a =
     \<lparr>final = [(''sampleA.bam'', good_derived)],
      general_stats_data = [(''sampleA.bam'', good_raw)],
      plot = Some plot_keys,
      logged = [DataSource ''a.txt'' ''sampleA.bam''],
      returned = 1\<rparr>"

text \<open>A log whose block for \<open>sampleA.bam\<close> has no reads, the record of \<open>zero_vals\<close>, a
  second log for \<open>sampleA.bam\<close> with other values, and a log whose table comes before
  any block start.\<close>

definition log_zero :: logfile where
  "log_zero = log_with ''z'' [start_line ''/data/sampleA.bam'', row header_cols, row zero_vals]"

definition zero_raw :: "real metrics" where
  "zero_raw =
     [(''LIBRARY'', Text ''lib0''), (''UNPAIRED_READS_EXAMINED'', Num 0),
      (''READ_PAIRS_EXAMINED'', Num 0), (''UNMAPPED_READS'', Num 0),
      (''UNPAIRED_READ_DUPLICATES'', Num 0), (''READ_PAIR_DUPLICATES'', Num 0),
      (''READ_PAIR_OPTICAL_DUPLICATES'', Num 0)]"

definition log_other :: logfile where
  "log_other = log_with ''o'' [start_line ''[/tmp/sampleA.bam]'', row header_cols, row other_vals]"

definition other_raw :: "real metrics" where
  "other_raw =
     [(''LIBRARY'', Text ''lib2''), (''UNPAIRED_READS_EXAMINED'', Num 4),
      (''READ_PAIRS_EXAMINED'', Num 50), (''UNMAPPED_READS'', Num 1),
      (''UNPAIRED_READ_DUPLICATES'', Num 2), (''READ_PAIR_DUPLICATES'', Num 6),
      (''READ_PAIR_OPTICAL_DUPLICATES'', Num 1)]"


definition state_a :: "real state" where
  "state_a = \<lparr>picard_dupMetrics_data = [(''sampleA.bam'', good_raw)],
              events = [DataSource ''a.txt'' ''sampleA.bam'']\<rparr>"

text \<open>The results of three more runs: a block without reads followed by \<open>log_a\<close>,
  \<open>log_a\<close> followed by \<open>log_other\<close>, and \<open>log_bare\<close> alone.\<close>

definition report_zero_a :: "real report" where
  "report_zero_a =
     \<lparr>final = [(''sampleA.bam'', good_derived)],
      general_stats_data = [(''sampleA.bam'', good_raw)],
      plot = Some plot_keys,
      logged = [DataSource ''z.txt'' ''sampleA.bam'', Warn (msg_no_reads ''sampleA.bam''),
                DataSource ''a.txt'' ''sampleA.bam''],
      returned = 1\<rparr>"

definition other_derived :: "real metrics" where
  "other_derived = other_raw @
     [(''READS_IN_DUPLICATE_PAIRS'', Num 12), (''READS_IN_UNIQUE_PAIRS'', Num 88),
      (''READS_IN_UNIQUE_UNPAIRED'', Num 2), (''READS_IN_DUPLICATE_PAIRS_OPTICAL'', Num 2),
      (''READS_IN_DUPLICATE_PAIRS_NONOPTICAL'', Num 10),
      (''READS_IN_DUPLICATE_UNPAIRED'', Num 2), (''READS_UNMAPPED'', Num 1)]"

definition report_a_other :: "real report" where
  "report_a_other =
     \<lparr>final = [(''sampleA.bam'', other_derived)],
      general_stats_data = [(''sampleA.bam'', other_raw)],
      plot = Some plot_keys,
      logged = [DataSource ''a.txt'' ''sampleA.bam'',
                Debug (msg_duplicate ''o.txt'' ''sampleA.bam''),
                DataSource ''o.txt'' ''sampleA.bam''],
      returned = 1\<rparr>"


text \<open>A short table of two columns, and one whose header repeats a name.\<close>

definition short_cols :: "string list" where
  "short_cols = [''UNPAIRED_READ_DUPLICATES'', ''READ_PAIRS_EXAMINED'']"

definition short_vals :: "string list" where
  "short_vals = [''3'', ''7'']"

definition short_raw :: "real metrics" where
  "short_raw = [(''UNPAIRED_READ_DUPLICATES'', Num 3), (''READ_PAIRS_EXAMINED'', Num 7)]"

definition twice_cols :: "string list" where
  "twice_cols = [''UNPAIRED_READ_DUPLICATES'', ''UNPAIRED_READ_DUPLICATES'',
                 ''READ_PAIRS_EXAMINED'']"

definition twice_vals :: "string list" where
  "twice_vals = [''1'', ''x'', ''7'']"

text \<open>A log whose value row is cut after three fields, and a log whose table lacks most
  of the fields that the derived step reads.\<close>

definition cut_vals :: "string list" where
  "cut_vals = [''lib1'', ''0'', ''100'']"

definition log_cut :: logfile where
  "log_cut = log_with ''c''
     [''## METRICS CLASS'' @ [CHR 0x0A], start_line ''/data/sampleC.bam'', row header_cols,
      row cut_vals]"

definition log_few :: logfile where
  "log_few = log_with ''w'' [start_line ''/data/sampleW.bam'', row short_cols, row short_vals]"

definition state_few :: "real state" where
  "state_few = \<lparr>picard_dupMetrics_data = [(''sampleW.bam'', short_raw)],
                events = [DataSource ''w.txt'' ''sampleW.bam'']\<rparr>"

definition text_unmapped :: "real metrics" where
  "text_unmapped =
     [(''READ_PAIR_DUPLICATES'', Num 10), (''READ_PAIRS_EXAMINED'', Num 100),
      (''UNPAIRED_READS_EXAMINED'', Num 0), (''UNPAIRED_READ_DUPLICATES'', Num 0),
      (''READ_PAIR_OPTICAL_DUPLICATES'', Num 2), (''UNMAPPED_READS'', Text ''n/a'')]"

text \<open>A log of two blocks, the second with a value row cut after three fields; a log
  whose table comes before any block start and has no reads; and the results of two more
  runs.\<close>

definition log_two :: logfile where
  "log_two = log_with ''t''
     [start_line ''/data/sampleA.bam'', row header_cols, row good_vals,
      start_line ''/data/sampleC.bam'', row header_cols, row cut_vals]"



definition report_a_zero :: "real report" where
  "report_a_zero =
     \<lparr>final = [], general_stats_data = [], plot = None,
      logged = [DataSource ''a.txt'' ''sampleA.bam'',
                Debug (msg_duplicate ''z.txt'' ''sampleA.bam''),
                DataSource ''z.txt'' ''sampleA.bam'', Warn (msg_no_reads ''sampleA.bam'')],
      returned = 0\<rparr>"


section \<open>Auxiliary facts\<close>

lemma and_then_Inr_iff: "and_then m g = Inr y \<longleftrightarrow> (\<exists>x. m = Inr x \<and> g x = Inr y)"
  by (cases m) (simp_all add: and_then_def)

lemma and_then_Inl_iff: "and_then m g = Inl e \<longleftrightarrow> m = Inl e \<or> (\<exists>x. m = Inr x \<and> g x = Inl e)"
  by (cases m) (simp_all add: and_then_def)

lemma set_field_present:
  "map_of d n = Some r \<Longrightarrow> set_field n k v d = Inr (AList.update n (AList.update k v r) d)"
  by (simp add: set_field_def)

lemma fill_fields_enough:
  "map_of d n = Some r \<Longrightarrow> i + length keys \<le> length vals \<Longrightarrow>
   fill_fields fl n i keys vals d =
     Inr (AList.update n
            (AList.updates keys (map (coerce fl) (take (length keys) (drop i vals))) r) d)"
proof (induction keys arbitrary: i d r)
  case Nil
  then show ?case by (simp add: AList.update_triv)
next
  case (Cons k ks)
  let ?v = "coerce fl (vals ! i)"
  let ?d = "AList.update n (AList.update k ?v r) d"
  from Cons.prems have i: "i < length vals" and le: "Suc i + length ks \<le> length vals"
    by simp_all
  have look: "map_of ?d n = Some (AList.update k ?v r)"
    by (simp add: update_conv')
  have tk: "take (Suc (length ks)) (drop i vals) = vals ! i # take (length ks) (drop (Suc i) vals)"
    using i by (simp add: take_Suc_conv_app_nth Cons_nth_drop_Suc [symmetric])
  show ?case
    using i Cons.prems(1) Cons.IH [OF look le]
    by (simp add: set_field_present tk)
qed

lemma fill_fields_short:
  "map_of d n = Some r \<Longrightarrow> i \<le> length vals \<Longrightarrow> length vals < i + length keys \<Longrightarrow>
   fill_fields fl n i keys vals d = Inl IndexError"
proof (induction keys arbitrary: i d r)
  case Nil
  then show ?case by simp
next
  case (Cons k ks)
  show ?case
  proof (cases "i < length vals")
    case True
    let ?d = "AList.update n (AList.update k (coerce fl (vals ! i)) r) d"
    have look: "map_of ?d n = Some (AList.update k (coerce fl (vals ! i)) r)"
      by (simp add: update_conv')
    have "Suc i \<le> length vals" "length vals < Suc i + length ks"
      using True Cons.prems(3) by simp_all
    from Cons.IH [OF look this] True Cons.prems(1) show ?thesis
      by (simp add: set_field_present)
  next
    case False
    then show ?thesis by simp
  qed
qed

lemma set_update_subset: "set (AList.update k v al) \<subseteq> insert (k, v) (set al)"
  by (induction al) auto

lemma set_delete_subset: "set (AList.delete k al) \<subseteq> set al"
  by (auto simp: AList.delete_eq)

lemma map_upds_last_occurrence:
  "length ks = length vs \<Longrightarrow> i < length ks \<Longrightarrow> ks ! i \<notin> set (drop (Suc i) ks) \<Longrightarrow>
   (m(ks [\<mapsto>] vs)) (ks ! i) = Some (vs ! i)"
proof (induction ks arbitrary: vs i m)
  case Nil
  then show ?case by simp
next
  case (Cons k ks)
  then obtain v vs' where vs: "vs = v # vs'" by (cases vs) auto
  show ?case
  proof (cases i)
    case 0
    with Cons.prems vs show ?thesis by simp
  next
    case (Suc j)
    have "((m(k \<mapsto> v))(ks [\<mapsto>] vs')) (ks ! j) = Some (vs' ! j)"
      using Cons.prems vs Suc by (intro Cons.IH) auto
    then show ?thesis using vs Suc by simp
  qed
qed

lemma keys_updates:
  "length ks = length vs \<Longrightarrow> fst ` set (AList.updates ks vs al) = set ks \<union> fst ` set al"
  by (simp add: dom_map_of_conv_image_fst [symmetric] updates_conv' Un_commute)

lemma fill_fields_fresh:
  "fill_fields fl n 0 keys vals (AList.update n [] d) =
     (if length keys \<le> length vals
      then Inr (AList.update n
             (AList.updates keys (map (coerce fl) (take (length keys) vals)) []) d)
      else Inl IndexError)"
proof (cases "length keys \<le> length vals")
  case True
  have "map_of (AList.update n [] d) n = Some []" by (simp add: update_conv')
  from fill_fields_enough [OF this, of 0 keys vals fl] True show ?thesis by simp
next
  case False
  have "map_of (AList.update n [] d) n = Some []" by (simp add: update_conv')
  from fill_fields_short [OF this, of 0 vals keys fl] False show ?thesis by simp
qed

lemma fill_fields_single:
  "fill_fields fl n 0 keys vals [(n, [])] = Inr [(n, r)] \<longleftrightarrow>
     length keys \<le> length vals \<and>
     r = AList.updates keys (map (coerce fl) (take (length keys) vals)) []"
  using fill_fields_fresh [of fl n keys vals "[]"] by auto

lemma process_block_eq:
  "process_block E f n l v st =
     (if length (split_tab (rstrip_nl l)) \<le> length (split_tab (rstrip_nl v)) then
        (let r = AList.updates (split_tab (rstrip_nl l))
                   (map (coerce (pyfloat E))
                      (take (length (split_tab (rstrip_nl l))) (split_tab (rstrip_nl v)))) [];
             ev = (if map_of (picard_dupMetrics_data st) n \<noteq> None
                   then events st @ [Debug (msg_duplicate (fn f) n)] else events st)
                  @ [DataSource (fn f) n]
         in if no_reads E r
            then Inr \<lparr>picard_dupMetrics_data = AList.delete n (picard_dupMetrics_data st),
                      events = ev @ [Warn (msg_no_reads n)]\<rparr>
            else Inr \<lparr>picard_dupMetrics_data = AList.update n r (picard_dupMetrics_data st),
                      events = ev\<rparr>)
      else Inl IndexError)"
  by (simp add: process_block_def fill_fields_fresh Let_def update_conv' delete_update_same)



lemma process_block_invariant:
  assumes del: "\<And>k d. Q d \<Longrightarrow> Q (AList.delete k d)"
    and upd: "\<And>k r d. Q d \<Longrightarrow> \<not> no_reads E r \<Longrightarrow> Q (AList.update k r d)"
    and Q: "Q (picard_dupMetrics_data st)"
    and run: "process_block E f n l v st = Inr st'"
  shows "Q (picard_dupMetrics_data st')"
  using run del [OF Q, of n] upd [OF Q, of _ n]
  by (auto simp: process_block_eq Let_def split: if_splits)

lemma scan_lines_invariant:
  assumes del: "\<And>k d. Q d \<Longrightarrow> Q (AList.delete k d)"
    and upd: "\<And>k r d. Q d \<Longrightarrow> \<not> no_reads E r \<Longrightarrow> Q (AList.update k r d)"
  shows "Q (picard_dupMetrics_data st) \<Longrightarrow> scan_lines E f p ls st = Inr st' \<Longrightarrow>
         Q (picard_dupMetrics_data st')"
proof (induction ls arbitrary: p st rule: length_induct)
  case (1 ls)
  have pb: "Q (picard_dupMetrics_data s')"
    if "Q (picard_dupMetrics_data s)" "process_block E f n l v s = Inr s'" for n l v s s'
    by (rule process_block_invariant [where Q = Q, OF _ _ that]) (auto intro: del upd)
  have IH: "Q (picard_dupMetrics_data st')"
    if "length ys < length ls" "Q (picard_dupMetrics_data s)" "scan_lines E f q ys s = Inr st'"
    for ys q s
    using "1.IH" that by blast
  show ?case
  proof (cases ls)
    case Nil
    with "1.prems" show ?thesis by simp
  next
    case (Cons l tl)
    show ?thesis
    proof (cases "if is_block_start l then input_name E (root f) l else p")
      case None
      with "1.prems"(2) Cons have "scan_lines E f None tl st = Inr st'" by simp
      from IH [OF _ "1.prems"(1) this] Cons show ?thesis by simp
    next
      case (Some n)
      show ?thesis
      proof (cases "is_header l")
        case False
        with "1.prems"(2) Cons Some have "scan_lines E f (Some n) tl st = Inr st'" by simp
        from IH [OF _ "1.prems"(1) this] Cons show ?thesis by simp
      next
        case True
        show ?thesis
        proof (cases tl)
          case Nil
          with "1.prems"(2) Cons Some True have "process_block E f n l [] st = Inr st'"
            by simp
          from pb [OF "1.prems"(1) this] show ?thesis .
        next
          case (Cons v rest)
          from "1.prems"(2) \<open>ls = l # tl\<close> Some True Cons obtain s1 where
            s1: "process_block E f n l v st = Inr s1" and
            rest: "scan_lines E f None rest s1 = Inr st'"
            by (auto split: sum.splits)
          have "Q (picard_dupMetrics_data s1)" using pb [OF "1.prems"(1) s1] .
          from IH [OF _ this rest] \<open>ls = l # tl\<close> Cons show ?thesis by simp
        qed
      qed
    qed
  qed
qed

lemma remove_empty_invariant:
  assumes del: "\<And>k d. Q d \<Longrightarrow> Q (AList.delete k d)"
  shows "Q (picard_dupMetrics_data st) \<Longrightarrow> remove_empty ns st = Inr st' \<Longrightarrow>
         Q (picard_dupMetrics_data st')"
proof (induction ns arbitrary: st)
  case Nil
  then show ?case by simp
next
  case (Cons n ns)
  from Cons.prems(2) obtain r where r: "map_of (picard_dupMetrics_data st) n = Some r"
    by (auto split: option.splits)
  show ?case
  proof (cases "length r = 0")
    case True
    let ?s = "\<lparr>picard_dupMetrics_data = AList.delete n (picard_dupMetrics_data st),
               events = events st @ [Debug (msg_no_data n)]\<rparr>"
    from Cons.prems(2) r True have run: "remove_empty ns ?s = Inr st'" by simp
    have "Q (picard_dupMetrics_data ?s)" using del [OF Cons.prems(1), of n] by simp
    from Cons.IH [OF this run] show ?thesis .
  next
    case False
    with Cons.prems(2) r have "remove_empty ns st = Inr st'" by simp
    from Cons.IH [OF Cons.prems(1) this] show ?thesis .
  qed
qed

lemma scan_files_invariant:
  assumes del: "\<And>k d. Q d \<Longrightarrow> Q (AList.delete k d)"
    and upd: "\<And>k r d. Q d \<Longrightarrow> \<not> no_reads E r \<Longrightarrow> Q (AList.update k r d)"
  shows "Q (picard_dupMetrics_data st) \<Longrightarrow> scan_files E fs st = Inr st' \<Longrightarrow>
         Q (picard_dupMetrics_data st')"
proof (induction fs arbitrary: st)
  case Nil
  then show ?case by simp
next
  case (Cons f fs)
  from Cons.prems(2) obtain s1 s2 where
    s1: "scan_lines E f (Some (s_name f)) (f_lines f) st = Inr s1" and
    s2: "remove_empty (map fst (picard_dupMetrics_data s1)) s1 = Inr s2" and
    rest: "scan_files E fs s2 = Inr st'"
    by (auto simp: scan_file_def split: sum.splits)
  have q1: "Q (picard_dupMetrics_data s1)"
    by (rule scan_lines_invariant [where Q = Q, OF _ _ Cons.prems(1) s1])
       (auto intro: del upd)
  have "Q (picard_dupMetrics_data s2)"
    by (rule remove_empty_invariant [where Q = Q, OF _ q1 s2]) (auto intro: del)
  from Cons.IH [OF this rest] show ?case .
qed

lemma getitem_Inr_iff: "getitem m k = Inr v \<longleftrightarrow> map_of m k = Some v"
  by (simp add: getitem_def split: option.splits)

lemma getitem_Inl_iff: "getitem m k = Inl e \<longleftrightarrow> map_of m k = None \<and> e = KeyError k"
  by (auto simp: getitem_def split: option.splits)

lemma times2_Inr_iff: "times2 E a = Inr v \<longleftrightarrow> (\<exists>x. a = Num x \<and> v = Num (twice E x))"
  by (cases a) auto

lemma times2_Inl_iff: "times2 E a = Inl e \<longleftrightarrow> (\<exists>t. a = Text t) \<and> e = TypeError"
  by (cases a) auto

lemma minus_fv_Inr_iff:
  "minus_fv E a b = Inr v \<longleftrightarrow> (\<exists>x y. a = Num x \<and> b = Num y \<and> v = Num (float_sub E x y))"
  by (cases a; cases b) auto

lemma minus_fv_Inl_iff:
  "minus_fv E a b = Inl e \<longleftrightarrow> ((\<exists>t. a = Text t) \<or> (\<exists>t. b = Text t)) \<and> e = TypeError"
  by (cases a; cases b) auto

lemma derive_metrics_Inr:
  assumes "derive_metrics E m = Inr m'"
  shows "\<exists>rpd rpe ure urd rpod um.
     map_of m ''READ_PAIR_DUPLICATES'' = Some (Num rpd) \<and>
     map_of m ''READ_PAIRS_EXAMINED'' = Some (Num rpe) \<and>
     map_of m ''UNPAIRED_READS_EXAMINED'' = Some (Num ure) \<and>
     map_of m ''UNPAIRED_READ_DUPLICATES'' = Some (Num urd) \<and>
     map_of m ''READ_PAIR_OPTICAL_DUPLICATES'' = Some (Num rpod) \<and>
     map_of m ''UNMAPPED_READS'' = Some um \<and>
     m' = AList.update ''READS_UNMAPPED'' um
           (AList.update ''READS_IN_DUPLICATE_UNPAIRED'' (Num urd)
           (AList.update ''READS_IN_DUPLICATE_PAIRS_NONOPTICAL'' (Num (float_sub E (twice E rpd) (twice E rpod)))
           (AList.update ''READS_IN_DUPLICATE_PAIRS_OPTICAL'' (Num (twice E rpod))
           (AList.update ''READS_IN_UNIQUE_UNPAIRED'' (Num (float_sub E ure urd))
           (AList.update ''READS_IN_UNIQUE_PAIRS'' (Num (twice E (float_sub E rpe rpd)))
           (AList.update ''READS_IN_DUPLICATE_PAIRS'' (Num (twice E rpd)) m))))))"
  using assms
  unfolding derive_metrics_def Let_def and_then_Inr_iff getitem_Inr_iff times2_Inr_iff
    minus_fv_Inr_iff update_conv'
  by (auto simp: update_conv')

lemma derive_metrics_numeric:
  assumes "map_of m ''READ_PAIR_DUPLICATES'' = Some (Num rpd)"
    and "map_of m ''READ_PAIRS_EXAMINED'' = Some (Num rpe)"
    and "map_of m ''UNPAIRED_READS_EXAMINED'' = Some (Num ure)"
    and "map_of m ''UNPAIRED_READ_DUPLICATES'' = Some (Num urd)"
    and "map_of m ''READ_PAIR_OPTICAL_DUPLICATES'' = Some (Num rpod)"
    and "map_of m ''UNMAPPED_READS'' = Some um"
  shows "derive_metrics E m =
     Inr (AList.update ''READS_UNMAPPED'' um
           (AList.update ''READS_IN_DUPLICATE_UNPAIRED'' (Num urd)
           (AList.update ''READS_IN_DUPLICATE_PAIRS_NONOPTICAL'' (Num (float_sub E (twice E rpd) (twice E rpod)))
           (AList.update ''READS_IN_DUPLICATE_PAIRS_OPTICAL'' (Num (twice E rpod))
           (AList.update ''READS_IN_UNIQUE_UNPAIRED'' (Num (float_sub E ure urd))
           (AList.update ''READS_IN_UNIQUE_PAIRS'' (Num (twice E (float_sub E rpe rpd)))
           (AList.update ''READS_IN_DUPLICATE_PAIRS'' (Num (twice E rpd)) m)))))))"
  using assms
  by (simp add: derive_metrics_def Let_def and_then_def getitem_def update_conv')

lemma derive_metrics_Inl:
  assumes "derive_metrics E m = Inl e"
  shows "e = TypeError \<or> (\<exists>k\<in>set required_raw. e = KeyError k \<and> map_of m k = None)"
  using assms
  unfolding derive_metrics_def Let_def and_then_Inl_iff getitem_Inl_iff times2_Inl_iff
    minus_fv_Inl_iff getitem_Inr_iff times2_Inr_iff minus_fv_Inr_iff
  by (auto simp: update_conv' required_raw_def)

lemma derive_metrics_other:
  assumes "derive_metrics E m = Inr m'" and "k \<notin> set derived_names"
  shows "map_of m' k = map_of m k"
  using derive_metrics_Inr [OF assms(1)] assms(2)
  by (auto simp: update_conv' derived_names_def)

lemma derive_metrics_no_reads:
  assumes "derive_metrics E m = Inr m'"
  shows "no_reads E m' = no_reads E m"
proof -
  have "map_of m' ''READ_PAIRS_EXAMINED'' = map_of m ''READ_PAIRS_EXAMINED''"
    by (rule derive_metrics_other [OF assms]) (simp add: derived_names_def)
  moreover have "map_of m' ''UNPAIRED_READS_EXAMINED'' = map_of m ''UNPAIRED_READS_EXAMINED''"
    by (rule derive_metrics_other [OF assms]) (simp add: derived_names_def)
  ultimately show ?thesis by (simp add: no_reads_def get_eq0_def)
qed

lemma derive_all_member:
  "derive_all E d = Inr d' \<Longrightarrow> (n, m') \<in> set d' \<Longrightarrow>
   \<exists>m. (n, m) \<in> set d \<and> derive_metrics E m = Inr m'"
proof (induction d arbitrary: d')
  case Nil
  then show ?case by simp
next
  case (Cons p d)
  obtain a b where p: "p = (a, b)" by (cases p)
  from Cons.prems(1) p obtain b' rest' where
    b': "derive_metrics E b = Inr b'" and rest': "derive_all E d = Inr rest'" and
    d': "d' = (a, b') # rest'"
    by (auto split: sum.splits)
  from Cons.prems(2) d' consider "(n, m') = (a, b')" | "(n, m') \<in> set rest'" by auto
  then show ?case
  proof cases
    case 1
    with b' p show ?thesis by auto
  next
    case 2
    from Cons.IH [OF rest' 2] show ?thesis by auto
  qed
qed

lemma derive_all_names:
  "derive_all E d = Inr d' \<Longrightarrow> map fst d' = map fst d"
proof (induction d arbitrary: d')
  case Nil
  then show ?case by simp
next
  case (Cons p d)
  obtain a b where p: "p = (a, b)" by (cases p)
  from Cons.prems p obtain b' rest' where
    "derive_all E d = Inr rest'" "d' = (a, b') # rest'"
    by (auto split: sum.splits)
  with Cons.IH p show ?case by simp
qed

lemma derive_all_Inl:
  "derive_all E d = Inl e \<Longrightarrow> \<exists>n m. (n, m) \<in> set d \<and> derive_metrics E m = Inl e"
proof (induction d)
  case Nil
  then show ?case by simp
next
  case (Cons p d)
  obtain a b where p: "p = (a, b)" by (cases p)
  show ?case
  proof (cases "derive_metrics E b")
    case (Inl e')
    with Cons.prems p show ?thesis by auto
  next
    case (Inr b')
    with Cons.prems p have "derive_all E d = Inl e" by (auto split: sum.splits)
    from Cons.IH [OF this] show ?thesis by auto
  qed
qed

lemma derive_all_raises:
  "(n, m) \<in> set d \<Longrightarrow> derive_metrics E m = Inl e \<Longrightarrow> \<exists>e'. derive_all E d = Inl e'"
proof (induction d)
  case Nil
  then show ?case by simp
next
  case (Cons p d)
  obtain a b where p: "p = (a, b)" by (cases p)
  show ?case
  proof (cases "derive_metrics E b")
    case (Inl e')
    with p show ?thesis by simp
  next
    case (Inr b')
    with Cons.prems p have "(n, m) \<in> set d" by auto
    from Cons.IH [OF this Cons.prems(2)] obtain e' where "derive_all E d = Inl e'" ..
    with Inr p show ?thesis by simp
  qed
qed

lemma plot_keys_value:
  "plot_keys =
     [(''READS_IN_UNIQUE_PAIRS'', ''Unique Pairs''),
      (''READS_IN_UNIQUE_UNPAIRED'', ''Unique Unpaired''),
      (''READS_IN_DUPLICATE_PAIRS_OPTICAL'', ''Duplicate Pairs Optical''),
      (''READS_IN_DUPLICATE_PAIRS_NONOPTICAL'', ''Duplicate Pairs Nonoptical''),
      (''READS_IN_DUPLICATE_UNPAIRED'', ''Duplicate Unpaired''),
      (''READS_UNMAPPED'', ''Unmapped'')]"
  by code_simp

lemma run_log_a: "parse_reports env0 [] [log_a] = Inr report_a"
  by code_simp

lemma parse_reports_Inr:
  assumes "parse_reports E gs fs = Inr r"
  shows "\<exists>st. scan_files E fs \<lparr>picard_dupMetrics_data = [], events = []\<rparr> = Inr st \<and>
    logged r = events st \<and>
    (if ignore_samples E (picard_dupMetrics_data st) = []
     then final r = [] \<and> plot r = None \<and> returned r = 0
     else derive_all E (ignore_samples E (picard_dupMetrics_data st)) = Inr (final r) \<and>
          plot r = Some plot_keys \<and> returned r = length (final r))"
proof (cases "scan_files E fs \<lparr>picard_dupMetrics_data = [], events = []\<rparr>")
  case (Inl e)
  with assms show ?thesis by (simp add: parse_reports_def)
next
  case (Inr st)
  show ?thesis
  proof (cases "ignore_samples E (picard_dupMetrics_data st) = []")
    case True
    with assms Inr show ?thesis by (auto simp: parse_reports_def)
  next
    case False
    with assms Inr show ?thesis
      by (auto simp: parse_reports_def Let_def split: sum.splits)
  qed
qed

lemma process_block_parsed:
  assumes "fill_fields (pyfloat E) n 0 (split_tab (rstrip_nl l)) (split_tab (rstrip_nl v))
             [(n, [])] = Inr [(n, r)]"
  shows "process_block E f n l v st =
     Inr (if no_reads E r
          then \<lparr>picard_dupMetrics_data = AList.delete n (picard_dupMetrics_data st),
                events = (if map_of (picard_dupMetrics_data st) n \<noteq> None
                          then events st @ [Debug (msg_duplicate (fn f) n)] else events st)
                         @ [DataSource (fn f) n] @ [Warn (msg_no_reads n)]\<rparr>
          else \<lparr>picard_dupMetrics_data = AList.update n r (picard_dupMetrics_data st),
                events = (if map_of (picard_dupMetrics_data st) n \<noteq> None
                          then events st @ [Debug (msg_duplicate (fn f) n)] else events st)
                         @ [DataSource (fn f) n]\<rparr>)"
  using assms unfolding fill_fields_single
  by (simp add: process_block_eq Let_def)

lemma process_block_entry:
  assumes "process_block E f n l v st = Inr st'"
    and "map_of (picard_dupMetrics_data st') n = Some m"
  shows "fill_fields (pyfloat E) n 0 (split_tab (rstrip_nl l)) (split_tab (rstrip_nl v))
           [(n, [])] = Inr [(n, m)]"
  using assms unfolding fill_fields_single
  by (auto simp: process_block_eq Let_def update_conv' delete_conv' split: if_splits)

lemma final_origin:
  fixes E :: "'f env"
  assumes "parse_reports E gs fs = Inr r" and "(n, m) \<in> set (final r)"
  shows "\<exists>st m0. scan_files E fs \<lparr>picard_dupMetrics_data = [], events = []\<rparr> = Inr st \<and>
     (n, m0) \<in> set (picard_dupMetrics_data st) \<and> \<not> ignored E n \<and>
     derive_metrics E m0 = Inr m"
proof -
  from parse_reports_Inr [OF assms(1)] obtain st :: "'f state" where
    run: "scan_files E fs \<lparr>picard_dupMetrics_data = [], events = []\<rparr> = Inr st" and
    st: "if ignore_samples E (picard_dupMetrics_data st) = []
     then final r = [] \<and> plot r = None \<and> returned r = 0
     else derive_all E (ignore_samples E (picard_dupMetrics_data st)) = Inr (final r) \<and>
          plot r = Some plot_keys \<and> returned r = length (final r)"
    by blast
  from st assms(2) have
    da: "derive_all E (ignore_samples E (picard_dupMetrics_data st)) = Inr (final r)"
    by (auto split: if_splits)
  from derive_all_member [OF da assms(2)] obtain m0 where
    "(n, m0) \<in> set (ignore_samples E (picard_dupMetrics_data st))" "derive_metrics E m0 = Inr m"
    by blast
  with run show ?thesis by (auto simp: ignore_samples_def)
qed

lemma scanned_have_reads:
  fixes E :: "'f env"
  assumes "scan_files E fs \<lparr>picard_dupMetrics_data = [], events = []\<rparr> = Inr st"
    and "(n, m) \<in> set (picard_dupMetrics_data st)"
  shows "\<not> no_reads E m"
proof -
  let ?Q = "\<lambda>d :: 'f collection. \<forall>p\<in>set d. \<not> no_reads E (snd p)"
  have "?Q (picard_dupMetrics_data st)"
  proof (rule scan_files_invariant [where Q = ?Q, OF _ _ _ assms(1)])
    show "?Q (AList.delete k d)" if "?Q d" for k d
      using that set_delete_subset [of k d] by blast
    show "?Q (AList.update k r d)" if "?Q d" "\<not> no_reads E r" for k r d
      using that set_update_subset [of k r d] by auto
    show "?Q (picard_dupMetrics_data \<lparr>picard_dupMetrics_data = [], events = []\<rparr>)"
      by simp
  qed
  with assms(2) show ?thesis by auto
qed

lemma scanned_distinct:
  fixes E :: "'f env"
  assumes "scan_files E fs \<lparr>picard_dupMetrics_data = [], events = []\<rparr> = Inr st"
  shows "distinct (map fst (picard_dupMetrics_data st))"
proof (rule scan_files_invariant [where Q = "\<lambda>d. distinct (map fst d)", OF _ _ _ assms])
  show "distinct (map fst (AList.delete k d))" if "distinct (map fst d)"
    for k and d :: "'f collection"
    using that by (rule distinct_delete)
  show "distinct (map fst (AList.update k r d))" if "distinct (map fst d)"
    for k r and d :: "'f collection"
    using that by (rule distinct_update)
  show "distinct (map fst (picard_dupMetrics_data \<lparr>picard_dupMetrics_data = [], events = []\<rparr>))"
    by simp
qed

lemma row_header_cols: "split_tab (rstrip_nl (row header_cols)) = header_cols"
  by code_simp


lemma row_zero_vals: "split_tab (rstrip_nl (row zero_vals)) = zero_vals"
  by code_simp

lemma row_other_vals: "split_tab (rstrip_nl (row other_vals)) = other_vals"
  by code_simp


lemma parse_zero_vals:
  "fill_fields float_digits n 0 header_cols zero_vals [(n, [])] = Inr [(n, zero_raw)]"
  unfolding fill_fields_single by code_simp

lemma parse_other_vals:
  "fill_fields float_digits n 0 header_cols other_vals [(n, [])] = Inr [(n, other_raw)]"
  unfolding fill_fields_single by code_simp

lemma no_reads_zero_raw: "no_reads env0 zero_raw"
  by code_simp


lemma reads_other_raw: "\<not> no_reads env0 other_raw"
  by code_simp

lemma reads_good_derived: "\<not> no_reads env0 good_derived"
  by code_simp

lemma pyfloat_env0: "pyfloat env0 = float_digits"
  by (simp add: env0_def)

lemma scan_log_a:
  "scan_files env0 [log_a] \<lparr>picard_dupMetrics_data = [], events = []\<rparr> = Inr state_a"
  by code_simp

lemma run_zero_a: "parse_reports env0 [] [log_zero, log_a] = Inr report_zero_a"
  by code_simp

lemma run_a_other: "parse_reports env0 [] [log_a, log_other] = Inr report_a_other"
  by code_simp


lemma final_distinct:
  fixes E :: "'f env"
  assumes "parse_reports E gs fs = Inr r"
  shows "distinct (map fst (final r))"
proof -
  from parse_reports_Inr [OF assms] obtain st :: "'f state" where
    run: "scan_files E fs \<lparr>picard_dupMetrics_data = [], events = []\<rparr> = Inr st" and
    st: "if ignore_samples E (picard_dupMetrics_data st) = []
     then final r = [] \<and> plot r = None \<and> returned r = 0
     else derive_all E (ignore_samples E (picard_dupMetrics_data st)) = Inr (final r) \<and>
          plot r = Some plot_keys \<and> returned r = length (final r)"
    by blast
  show ?thesis
  proof (cases "ignore_samples E (picard_dupMetrics_data st) = []")
    case True
    with st show ?thesis by simp
  next
    case False
    with st have "derive_all E (ignore_samples E (picard_dupMetrics_data st)) = Inr (final r)"
      by simp
    from derive_all_names [OF this] scanned_distinct [OF run] show ?thesis
      by (simp add: ignore_samples_def distinct_map_filter)
  qed
qed

lemma row_short_cols: "split_tab (rstrip_nl (row short_cols)) = short_cols"
  by code_simp

lemma row_short_vals: "split_tab (rstrip_nl (row short_vals)) = short_vals"
  by code_simp

lemma row_twice_cols: "split_tab (rstrip_nl (row twice_cols)) = twice_cols"
  by code_simp

lemma row_twice_vals: "split_tab (rstrip_nl (row twice_vals)) = twice_vals"
  by code_simp

lemma parse_short_vals:
  "fill_fields float_digits n 0 short_cols short_vals [(n, [])] = Inr [(n, short_raw)]"
  unfolding fill_fields_single by code_simp

lemma fill_fields_keys:
  assumes "fill_fields fl n 0 keys vals [(n, [])] = Inr [(n, m)]"
  shows "fst ` set m = set keys"
proof -
  from assms have le: "length keys \<le> length vals"
    and m: "m = AList.updates keys (map (coerce fl) (take (length keys) vals)) []"
    unfolding fill_fields_single by simp_all
  from le have "length keys = length (map (coerce fl) (take (length keys) vals))"
    by simp
  from keys_updates [OF this, of "[]"] m show ?thesis by simp
qed





lemma good_vals_line: "\<not> is_block_start (row good_vals)" "\<not> is_header (row good_vals)"
  by code_simp+

lemma scan_files_append:
  "scan_files E (fs1 @ fs2) st =
     (case scan_files E fs1 st of Inl e \<Rightarrow> Inl e | Inr st1 \<Rightarrow> scan_files E fs2 st1)"
  by (induction fs1 arbitrary: st) (simp_all split: sum.splits)

lemma scan_lines_start:
  "is_block_start b \<Longrightarrow> \<not> is_header b \<Longrightarrow> input_name E (root f) b = Some n \<Longrightarrow>
   scan_lines E f p (b # ls) st = scan_lines E f (Some n) ls st"
  by simp


lemma derive_metrics_needs:
  assumes "(\<exists>k\<in>set required_raw. map_of m k = None) \<or>
           (\<exists>k\<in>set arithmetic_raw. \<exists>t. map_of m k = Some (Text t))"
  shows "\<exists>e. derive_metrics E m = Inl e"
proof (cases "derive_metrics E m")
  case (Inl e)
  then show ?thesis by blast
next
  case (Inr m')
  from derive_metrics_Inr [OF Inr] assms show ?thesis
    by (auto simp: required_raw_def arithmetic_raw_def)
qed

lemma run_cut: "parse_reports env0 [] [log_cut, log_a] = Inl IndexError"
  by code_simp

lemma run_few: "parse_reports env0 [] [log_few] = Inl (KeyError ''READ_PAIR_DUPLICATES'')"
  by code_simp

lemma scan_log_few:
  "scan_files env0 [log_few] \<lparr>picard_dupMetrics_data = [], events = []\<rparr> = Inr state_few"
  by code_simp

lemma row_cut_vals: "split_tab (rstrip_nl (row cut_vals)) = cut_vals"
  by code_simp

lemma scan_lines_rows:
  "scan_lines E f p ls st = run_rows E (map (\<lambda>r. (f, r)) (parsed_rows E f p ls)) st"
proof (induction E f p ls st rule: scan_lines.induct)
  case (1 E f pending st)
  then show ?case by simp
next
  case (2 E f pending l ls st)
  show ?case
  proof (cases "if is_block_start l then input_name E (root f) l else pending")
    case None
    with 2 show ?thesis by simp
  next
    case (Some n)
    show ?thesis
    proof (cases "is_header l")
      case False
      with 2 Some show ?thesis by simp
    next
      case True
      show ?thesis
      proof (cases ls)
        case Nil
        with Some True show ?thesis by (simp split: sum.splits)
      next
        case (Cons v rest)
        with 2 Some True show ?thesis by (simp split: sum.splits)
      qed
    qed
  qed
qed

lemma run_rows_append:
  "run_rows E (a @ b) st =
     (case run_rows E a st of Inl e \<Rightarrow> Inl e | Inr st' \<Rightarrow> run_rows E b st')"
proof (induction a arbitrary: st)
  case Nil
  then show ?case by simp
next
  case (Cons x a)
  obtain f n l v where x: "x = (f, n, l, v)" by (cases x)
  show ?case unfolding x by (simp add: Cons.IH split: sum.splits)
qed

lemma no_reads_Nil: "no_reads E []"
  by (simp add: no_reads_def get_eq0_def)

lemma remove_empty_noop:
  "\<forall>n\<in>set ns. \<exists>r. map_of (picard_dupMetrics_data st) n = Some r \<and> r \<noteq> [] \<Longrightarrow>
   remove_empty ns st = Inr st"
  by (induction ns) auto

lemma has_reads_nonempty:
  assumes "\<forall>p\<in>set d. \<not> no_reads E (snd p)"
  shows "\<forall>n\<in>set (map fst d). \<exists>r. map_of d n = Some r \<and> r \<noteq> []"
proof
  fix n assume "n \<in> set (map fst d)"
  then obtain r where r: "map_of d n = Some r"
    by (metis map_of_eq_None_iff not_Some_eq set_map)
  then have "(n, r) \<in> set d" by (rule map_of_SomeD)
  with assms have "\<not> no_reads E r" by auto
  then have "r \<noteq> []" using no_reads_Nil by auto
  with r show "\<exists>r. map_of d n = Some r \<and> r \<noteq> []" by blast
qed

lemma run_rows_invariant:
  assumes del: "\<And>k d. Q d \<Longrightarrow> Q (AList.delete k d)"
    and upd: "\<And>k r d. Q d \<Longrightarrow> \<not> no_reads E r \<Longrightarrow> Q (AList.update k r d)"
  shows "Q (picard_dupMetrics_data st) \<Longrightarrow> run_rows E rs st = Inr st' \<Longrightarrow>
         Q (picard_dupMetrics_data st')"
proof (induction rs arbitrary: st)
  case Nil
  then show ?case by simp
next
  case (Cons x rs)
  obtain f n l v where x: "x = (f, n, l, v)" by (cases x)
  from Cons.prems(2) x obtain s1 where
    s1: "process_block E f n l v st = Inr s1" and rest: "run_rows E rs s1 = Inr st'"
    by (auto split: sum.splits)
  have "Q (picard_dupMetrics_data s1)"
    by (rule process_block_invariant [where Q = Q, OF _ _ Cons.prems(1) s1])
       (auto intro: del upd)
  from Cons.IH [OF this rest] show ?case .
qed

lemma run_rows_have_reads:
  fixes E :: "'f env"
  assumes "\<forall>p\<in>set (picard_dupMetrics_data st). \<not> no_reads E (snd p)"
    and "run_rows E rs st = Inr st'"
  shows "\<forall>p\<in>set (picard_dupMetrics_data st'). \<not> no_reads E (snd p)"
proof (rule run_rows_invariant
    [where Q = "\<lambda>d :: 'f collection. \<forall>p\<in>set d. \<not> no_reads E (snd p)", OF _ _ assms])
  show "\<forall>p\<in>set (AList.delete k d). \<not> no_reads E (snd p)"
    if "\<forall>p\<in>set d. \<not> no_reads E (snd p)" for k and d :: "'f collection"
    using that set_delete_subset [of k d] by blast
  show "\<forall>p\<in>set (AList.update k r d). \<not> no_reads E (snd p)"
    if "\<forall>p\<in>set d. \<not> no_reads E (snd p)" "\<not> no_reads E r" for k r and d :: "'f collection"
    using that set_update_subset [of k r d] by auto
qed

lemma scan_file_rows:
  assumes "\<forall>p\<in>set (picard_dupMetrics_data st). \<not> no_reads E (snd p)"
  shows "scan_file E f st = run_rows E (file_rows E f) st"
proof (cases "run_rows E (file_rows E f) st")
  case (Inl e)
  then show ?thesis by (simp add: scan_file_def scan_lines_rows file_rows_def)
next
  case (Inr st')
  from run_rows_have_reads [OF assms Inr]
  have "\<forall>n\<in>set (map fst (picard_dupMetrics_data st')).
          \<exists>r. map_of (picard_dupMetrics_data st') n = Some r \<and> r \<noteq> []"
    by (rule has_reads_nonempty)
  then have "remove_empty (map fst (picard_dupMetrics_data st')) st' = Inr st'"
    by (rule remove_empty_noop)
  with Inr show ?thesis by (simp add: scan_file_def scan_lines_rows file_rows_def)
qed

lemma scan_files_rows:
  assumes "\<forall>p\<in>set (picard_dupMetrics_data st). \<not> no_reads E (snd p)"
  shows "scan_files E fs st = run_rows E (all_rows E fs) st"
  using assms
proof (induction fs arbitrary: st)
  case Nil
  then show ?case by (simp add: all_rows_def)
next
  case (Cons f fs)
  have split: "all_rows E (f # fs) = file_rows E f @ all_rows E fs"
    by (simp add: all_rows_def)
  show ?case
  proof (cases "run_rows E (file_rows E f) st")
    case (Inl e)
    then show ?thesis
      by (simp add: split run_rows_append scan_file_rows [OF Cons.prems])
  next
    case (Inr s1)
    from run_rows_have_reads [OF Cons.prems Inr] Cons.IH
    have "scan_files E fs s1 = run_rows E (all_rows E fs) s1" by blast
    with Inr show ?thesis
      by (simp add: split run_rows_append scan_file_rows [OF Cons.prems])
  qed
qed

lemma scan_files_rows_init:
  "scan_files E fs \<lparr>picard_dupMetrics_data = [], events = []\<rparr> =
   run_rows E (all_rows E fs) \<lparr>picard_dupMetrics_data = [], events = []\<rparr>"
  by (rule scan_files_rows) simp

lemma process_block_short:
  "short_row (f, n, l, v) \<Longrightarrow> process_block E f n l v st = Inl IndexError"
  by (simp add: short_row_def process_block_eq)

lemma process_block_Inl:
  "process_block E f n l v st = Inl e \<Longrightarrow> e = IndexError \<and> short_row (f, n, l, v)"
  by (auto simp: short_row_def process_block_eq Let_def split: if_splits)

lemma run_rows_short:
  "\<exists>x\<in>set rs. short_row x \<Longrightarrow> run_rows E rs st = Inl IndexError"
proof (induction rs arbitrary: st)
  case Nil
  then show ?case by simp
next
  case (Cons x rs)
  obtain f n l v where x: "x = (f, n, l, v)" by (cases x)
  show ?case
  proof (cases "process_block E f n l v st")
    case (Inl e)
    from process_block_Inl [OF Inl] Inl x show ?thesis by simp
  next
    case (Inr s1)
    then have "\<not> short_row x" using process_block_short [of f n l v E st] x by auto
    with Cons.prems have "\<exists>x\<in>set rs. short_row x" by auto
    from Cons.IH [OF this] Inr x show ?thesis by simp
  qed
qed

lemma run_rows_Inl:
  "run_rows E rs st = Inl e \<Longrightarrow> e = IndexError \<and> (\<exists>x\<in>set rs. short_row x)"
proof (induction rs arbitrary: st)
  case Nil
  then show ?case by simp
next
  case (Cons x rs)
  obtain f n l v where x: "x = (f, n, l, v)" by (cases x)
  show ?case
  proof (cases "process_block E f n l v st")
    case (Inl e')
    from process_block_Inl [OF Inl] Inl Cons.prems x show ?thesis by auto
  next
    case (Inr s1)
    with Cons.prems x have "run_rows E rs s1 = Inl e" by simp
    from Cons.IH [OF this] show ?thesis by auto
  qed
qed

lemma process_block_other:
  "process_block E f n l v st = Inr st' \<Longrightarrow> k \<noteq> n \<Longrightarrow>
   map_of (picard_dupMetrics_data st') k = map_of (picard_dupMetrics_data st) k"
  by (auto simp: process_block_eq Let_def update_conv' delete_conv' split: if_splits)

lemma run_rows_other:
  "run_rows E rs st = Inr st' \<Longrightarrow> \<forall>x\<in>set rs. row_name x \<noteq> k \<Longrightarrow>
   map_of (picard_dupMetrics_data st') k = map_of (picard_dupMetrics_data st) k"
proof (induction rs arbitrary: st)
  case Nil
  then show ?case by simp
next
  case (Cons x rs)
  obtain f n l v where x: "x = (f, n, l, v)" by (cases x)
  from Cons.prems(1) x obtain s1 where
    s1: "process_block E f n l v st = Inr s1" and rest: "run_rows E rs s1 = Inr st'"
    by (auto split: sum.splits)
  from Cons.prems(2) x have ne: "k \<noteq> n" and others: "\<forall>x\<in>set rs. row_name x \<noteq> k"
    by (auto simp: row_name_def)
  from Cons.IH [OF rest others] process_block_other [OF s1 ne] show ?case by simp
qed

lemma run_rows_last:
  assumes "run_rows E (before @ (f, n, l, v) # after) st = Inr st'"
    and "\<forall>x\<in>set after. row_name x \<noteq> n"
  shows "\<exists>m. fill_fields (pyfloat E) n 0 (split_tab (rstrip_nl l)) (split_tab (rstrip_nl v))
               [(n, [])] = Inr [(n, m)] \<and>
             map_of (picard_dupMetrics_data st') n = (if no_reads E m then None else Some m)"
proof -
  from assms(1) obtain s1 s2 where
    "run_rows E before st = Inr s1" and
    s2: "process_block E f n l v s1 = Inr s2" and
    rest: "run_rows E after s2 = Inr st'"
    by (auto simp: run_rows_append split: sum.splits)
  let ?m = "AList.updates (split_tab (rstrip_nl l))
              (map (coerce (pyfloat E))
                 (take (length (split_tab (rstrip_nl l))) (split_tab (rstrip_nl v)))) []"
  from s2 have le: "length (split_tab (rstrip_nl l)) \<le> length (split_tab (rstrip_nl v))"
    by (auto simp: process_block_eq split: if_splits)
  then have parsed: "fill_fields (pyfloat E) n 0 (split_tab (rstrip_nl l))
      (split_tab (rstrip_nl v)) [(n, [])] = Inr [(n, ?m)]"
    unfolding fill_fields_single by simp
  from s2 have "map_of (picard_dupMetrics_data s2) n = (if no_reads E ?m then None else Some ?m)"
    by (auto simp: process_block_parsed [OF parsed] delete_conv' update_conv')
  with run_rows_other [OF rest assms(2)] parsed show ?thesis by auto
qed

lemma derive_all_pointwise:
  "derive_all E d = Inr d' \<longleftrightarrow>
   list_all2 (\<lambda>p p'. fst p' = fst p \<and> derive_metrics E (snd p) = Inr (snd p')) d d'"
proof (induction d arbitrary: d')
  case Nil
  then show ?case by auto
next
  case (Cons p d)
  obtain a b where p: "p = (a, b)" by (cases p)
  show ?case
  proof (cases d')
    case Nil
    then show ?thesis using p by (auto split: sum.splits)
  next
    case (Cons p' rest')
    obtain a' b' where p': "p' = (a', b')" by (cases p')
    show ?thesis
      unfolding Cons p p' using Cons.IH [of rest']
      by (auto split: sum.splits)
  qed
qed

lemma derive_all_map_of:
  assumes "derive_all E d = Inr d'"
  shows "(map_of d n = None \<longrightarrow> map_of d' n = None) \<and>
         (\<forall>m. map_of d n = Some m \<longrightarrow>
            (\<exists>m'. derive_metrics E m = Inr m' \<and> map_of d' n = Some m'))"
  using assms
proof (induction d arbitrary: d')
  case Nil
  then show ?case by simp
next
  case (Cons p d)
  obtain a b where p: "p = (a, b)" by (cases p)
  from Cons.prems p obtain b' rest' where
    b': "derive_metrics E b = Inr b'" and rest': "derive_all E d = Inr rest'" and
    d': "d' = (a, b') # rest'"
    by (auto split: sum.splits)
  from Cons.IH [OF rest'] b' show ?case unfolding p d' by simp
qed

lemma map_of_ignore_samples:
  "map_of (ignore_samples E d) n = (if ignored E n then None else map_of d n)"
  by (induction d) (auto simp: ignore_samples_def)

lemma parse_reports_final:
  fixes E :: "'f env"
  assumes "parse_reports E gs fs = Inr r"
  shows "\<exists>st. scan_files E fs \<lparr>picard_dupMetrics_data = [], events = []\<rparr> = Inr st \<and>
    derive_all E (ignore_samples E (picard_dupMetrics_data st)) = Inr (final r) \<and>
    logged r = events st \<and> returned r = length (final r)"
proof -
  from parse_reports_Inr [OF assms] obtain st :: "'f state" where
    run: "scan_files E fs \<lparr>picard_dupMetrics_data = [], events = []\<rparr> = Inr st" and
    lg: "logged r = events st" and
    st: "if ignore_samples E (picard_dupMetrics_data st) = []
     then final r = [] \<and> plot r = None \<and> returned r = 0
     else derive_all E (ignore_samples E (picard_dupMetrics_data st)) = Inr (final r) \<and>
          plot r = Some plot_keys \<and> returned r = length (final r)"
    by blast
  have "derive_all E (ignore_samples E (picard_dupMetrics_data st)) = Inr (final r) \<and>
        returned r = length (final r)"
    using st by (cases "ignore_samples E (picard_dupMetrics_data st) = []") simp_all
  with run lg show ?thesis by blast
qed

lemma parse_reports_returns:
  assumes "scan_files E fs \<lparr>picard_dupMetrics_data = [], events = []\<rparr> = Inr st"
    and "derive_all E (ignore_samples E (picard_dupMetrics_data st)) = Inr d'"
  shows "\<exists>r. parse_reports E gs fs = Inr r \<and> final r = d' \<and> returned r = length d' \<and>
              logged r = events st"
proof (cases "ignore_samples E (picard_dupMetrics_data st) = []")
  case True
  with assms show ?thesis by (simp add: parse_reports_def)
next
  case False
  with assms show ?thesis by (simp add: parse_reports_def Let_def)
qed

lemma parse_reports_scan_error:
  "scan_files E fs \<lparr>picard_dupMetrics_data = [], events = []\<rparr> = Inl e \<Longrightarrow>
   parse_reports E gs fs = Inl e"
  by (simp add: parse_reports_def)

lemma derive_all_Inl_error:
  "derive_all E d = Inl e \<Longrightarrow> e \<noteq> IndexError"
proof -
  assume "derive_all E d = Inl e"
  from derive_all_Inl [OF this] obtain m where "derive_metrics E m = Inl e" by blast
  from derive_metrics_Inl [OF this] show ?thesis by auto
qed

lemma parse_reports_IndexError:
  "parse_reports E gs fs = Inl IndexError \<longleftrightarrow>
   scan_files E fs \<lparr>picard_dupMetrics_data = [], events = []\<rparr> = Inl IndexError"
  using derive_all_Inl_error [of E _ IndexError]
  by (auto simp: parse_reports_def Let_def split: sum.splits if_splits)

lemma derive_all_total:
  assumes "\<forall>p\<in>set d. \<exists>m'. derive_metrics E (snd p) = Inr m'"
  shows "\<exists>d'. derive_all E d = Inr d'"
  using assms
proof (induction d)
  case Nil
  then show ?case by simp
next
  case (Cons p d)
  obtain a b where p: "p = (a, b)" by (cases p)
  from Cons.prems p obtain b' where "derive_metrics E b = Inr b'" by auto
  moreover from Cons obtain d' where "derive_all E d = Inr d'" by auto
  ultimately show ?case unfolding p by simp
qed

lemma rows_of_runs:
  "all_rows env0 [log_a, log_two, log_other] =
     [(log_a, ''sampleA.bam'', row header_cols, row good_vals),
      (log_two, ''sampleA.bam'', row header_cols, row good_vals),
      (log_two, ''sampleC.bam'', row header_cols, row cut_vals),
      (log_other, ''sampleA.bam'', row header_cols, row other_vals)]"
  "all_rows env0 [log_a, log_other] =
     [(log_a, ''sampleA.bam'', row header_cols, row good_vals),
      (log_other, ''sampleA.bam'', row header_cols, row other_vals)]"
  by code_simp+

lemma short_cut_row: "short_row (log_two, ''sampleC.bam'', row header_cols, row cut_vals)"
  unfolding short_row_def prod.case row_header_cols row_cut_vals
  by (simp add: header_cols_def cut_vals_def)


lemma run_a_zero: "parse_reports env0 [] [log_a, log_zero] = Inr report_a_zero"
  by code_simp








section \<open>The claims\<close>

subsection \<open>C1: the derived metrics\<close>

text \<open>
  Claim C1. For every record that comes out of the scan and the filter with its six raw
  fields READ_PAIR_DUPLICATES, READ_PAIRS_EXAMINED, UNPAIRED_READS_EXAMINED,
  UNPAIRED_READ_DUPLICATES, READ_PAIR_OPTICAL_DUPLICATES and UNMAPPED_READS present and
  numeric, the derived step adds exactly the seven fields
  READS_IN_DUPLICATE_PAIRS = 2 * READ_PAIR_DUPLICATES,
  READS_IN_UNIQUE_PAIRS = 2 * (READ_PAIRS_EXAMINED - READ_PAIR_DUPLICATES),
  READS_IN_UNIQUE_UNPAIRED = UNPAIRED_READS_EXAMINED - UNPAIRED_READ_DUPLICATES,
  READS_IN_DUPLICATE_PAIRS_OPTICAL = 2 * READ_PAIR_OPTICAL_DUPLICATES,
  READS_IN_DUPLICATE_PAIRS_NONOPTICAL = READS_IN_DUPLICATE_PAIRS -
  READS_IN_DUPLICATE_PAIRS_OPTICAL, READS_IN_DUPLICATE_UNPAIRED = UNPAIRED_READ_DUPLICATES
  and READS_UNMAPPED = UNMAPPED_READS, written in this order, the product and the
  difference being those of floats; every other field keeps its value. When all records
  are such, \<^verbatim>\<open>parse_reports\<close> returns, and in every run that returns the final
  collection is the scanned and filtered collection, name by name and in the same order,
  with every record replaced by the result of the derived step on it. The witness is
  the example of the specification: the inputs 10, 100, 0, 0, 2, 5 give 20, 180, 0, 4,
  16, 0, 5.
\<close>

theorem derived_metrics_formulas:
  fixes E :: "'f env"
  shows
  "(map_of m ''READ_PAIR_DUPLICATES'' = Some (Num rpd) \<and>
    map_of m ''READ_PAIRS_EXAMINED'' = Some (Num rpe) \<and>
    map_of m ''UNPAIRED_READS_EXAMINED'' = Some (Num ure) \<and>
    map_of m ''UNPAIRED_READ_DUPLICATES'' = Some (Num urd) \<and>
    map_of m ''READ_PAIR_OPTICAL_DUPLICATES'' = Some (Num rpod) \<and>
    map_of m ''UNMAPPED_READS'' = Some (Num um) \<longrightarrow>
     (\<exists>m'. derive_metrics E m = Inr m' \<and>
       m' = AList.update ''READS_UNMAPPED'' (Num um)
             (AList.update ''READS_IN_DUPLICATE_UNPAIRED'' (Num urd)
             (AList.update ''READS_IN_DUPLICATE_PAIRS_NONOPTICAL''
                (Num (float_sub E (twice E rpd) (twice E rpod)))
             (AList.update ''READS_IN_DUPLICATE_PAIRS_OPTICAL'' (Num (twice E rpod))
             (AList.update ''READS_IN_UNIQUE_UNPAIRED'' (Num (float_sub E ure urd))
             (AList.update ''READS_IN_UNIQUE_PAIRS'' (Num (twice E (float_sub E rpe rpd)))
             (AList.update ''READS_IN_DUPLICATE_PAIRS'' (Num (twice E rpd)) m)))))) \<and>
       map_of m' ''READS_IN_DUPLICATE_PAIRS'' = Some (Num (twice E rpd)) \<and>
       map_of m' ''READS_IN_UNIQUE_PAIRS'' = Some (Num (twice E (float_sub E rpe rpd))) \<and>
       map_of m' ''READS_IN_UNIQUE_UNPAIRED'' = Some (Num (float_sub E ure urd)) \<and>
       map_of m' ''READS_IN_DUPLICATE_PAIRS_OPTICAL'' = Some (Num (twice E rpod)) \<and>
       map_of m' ''READS_IN_DUPLICATE_PAIRS_NONOPTICAL'' =
         Some (Num (float_sub E (twice E rpd) (twice E rpod))) \<and>
       map_of m' ''READS_IN_DUPLICATE_UNPAIRED'' = Some (Num urd) \<and>
       map_of m' ''READS_UNMAPPED'' = Some (Num um) \<and>
       (\<forall>k. k \<notin> set derived_names \<longrightarrow> map_of m' k = map_of m k) \<and>
       fst ` set m' = fst ` set m \<union> set derived_names)) \<and>
   (scan_files E fs \<lparr>picard_dupMetrics_data = [], events = []\<rparr> = Inr st \<and>
    (\<forall>p\<in>set (ignore_samples E (picard_dupMetrics_data st)).
       \<exists>a b c d e g.
         map_of (snd p) ''READ_PAIR_DUPLICATES'' = Some (Num a) \<and>
         map_of (snd p) ''READ_PAIRS_EXAMINED'' = Some (Num b) \<and>
         map_of (snd p) ''UNPAIRED_READS_EXAMINED'' = Some (Num c) \<and>
         map_of (snd p) ''UNPAIRED_READ_DUPLICATES'' = Some (Num d) \<and>
         map_of (snd p) ''READ_PAIR_OPTICAL_DUPLICATES'' = Some (Num e) \<and>
         map_of (snd p) ''UNMAPPED_READS'' = Some (Num g)) \<longrightarrow>
     (\<exists>r. parse_reports E gs fs = Inr r)) \<and>
   (parse_reports E gs fs = Inr r \<longrightarrow>
     (\<exists>st'. scan_files E fs \<lparr>picard_dupMetrics_data = [], events = []\<rparr> = Inr st' \<and>
        list_all2 (\<lambda>p p'. fst p' = fst p \<and> derive_metrics E (snd p) = Inr (snd p'))
          (ignore_samples E (picard_dupMetrics_data st')) (final r) \<and>
        returned r = length (final r)))"
proof (intro conjI impI)
  assume six: "map_of m ''READ_PAIR_DUPLICATES'' = Some (Num rpd) \<and>
    map_of m ''READ_PAIRS_EXAMINED'' = Some (Num rpe) \<and>
    map_of m ''UNPAIRED_READS_EXAMINED'' = Some (Num ure) \<and>
    map_of m ''UNPAIRED_READ_DUPLICATES'' = Some (Num urd) \<and>
    map_of m ''READ_PAIR_OPTICAL_DUPLICATES'' = Some (Num rpod) \<and>
    map_of m ''UNMAPPED_READS'' = Some (Num um)"
  let ?m' = "AList.update ''READS_UNMAPPED'' (Num um)
             (AList.update ''READS_IN_DUPLICATE_UNPAIRED'' (Num urd)
             (AList.update ''READS_IN_DUPLICATE_PAIRS_NONOPTICAL''
                (Num (float_sub E (twice E rpd) (twice E rpod)))
             (AList.update ''READS_IN_DUPLICATE_PAIRS_OPTICAL'' (Num (twice E rpod))
             (AList.update ''READS_IN_UNIQUE_UNPAIRED'' (Num (float_sub E ure urd))
             (AList.update ''READS_IN_UNIQUE_PAIRS'' (Num (twice E (float_sub E rpe rpd)))
             (AList.update ''READS_IN_DUPLICATE_PAIRS'' (Num (twice E rpd)) m))))))"
  have run: "derive_metrics E m = Inr ?m'"
    using six by (intro derive_metrics_numeric) simp_all
  have other: "\<forall>k. k \<notin> set derived_names \<longrightarrow> map_of ?m' k = map_of m k"
    using derive_metrics_other [OF run] by blast
  have keys: "fst ` set ?m' = fst ` set m \<union> set derived_names"
    by (auto simp: dom_update derived_names_def)
  show "\<exists>m'. derive_metrics E m = Inr m' \<and>
       m' = ?m' \<and>
       map_of m' ''READS_IN_DUPLICATE_PAIRS'' = Some (Num (twice E rpd)) \<and>
       map_of m' ''READS_IN_UNIQUE_PAIRS'' = Some (Num (twice E (float_sub E rpe rpd))) \<and>
       map_of m' ''READS_IN_UNIQUE_UNPAIRED'' = Some (Num (float_sub E ure urd)) \<and>
       map_of m' ''READS_IN_DUPLICATE_PAIRS_OPTICAL'' = Some (Num (twice E rpod)) \<and>
       map_of m' ''READS_IN_DUPLICATE_PAIRS_NONOPTICAL'' =
         Some (Num (float_sub E (twice E rpd) (twice E rpod))) \<and>
       map_of m' ''READS_IN_DUPLICATE_UNPAIRED'' = Some (Num urd) \<and>
       map_of m' ''READS_UNMAPPED'' = Some (Num um) \<and>
       (\<forall>k. k \<notin> set derived_names \<longrightarrow> map_of m' k = map_of m k) \<and>
       fst ` set m' = fst ` set m \<union> set derived_names"
    using run other keys by (simp add: update_conv')
next
  assume a: "scan_files E fs \<lparr>picard_dupMetrics_data = [], events = []\<rparr> = Inr st \<and>
    (\<forall>p\<in>set (ignore_samples E (picard_dupMetrics_data st)).
       \<exists>a b c d e g.
         map_of (snd p) ''READ_PAIR_DUPLICATES'' = Some (Num a) \<and>
         map_of (snd p) ''READ_PAIRS_EXAMINED'' = Some (Num b) \<and>
         map_of (snd p) ''UNPAIRED_READS_EXAMINED'' = Some (Num c) \<and>
         map_of (snd p) ''UNPAIRED_READ_DUPLICATES'' = Some (Num d) \<and>
         map_of (snd p) ''READ_PAIR_OPTICAL_DUPLICATES'' = Some (Num e) \<and>
         map_of (snd p) ''UNMAPPED_READS'' = Some (Num g))"
  then have run: "scan_files E fs \<lparr>picard_dupMetrics_data = [], events = []\<rparr> = Inr st"
    by simp
  have "\<exists>m'. derive_metrics E (snd p) = Inr m'"
    if "p \<in> set (ignore_samples E (picard_dupMetrics_data st))" for p
  proof -
    from a that obtain a b c d e g where
      "map_of (snd p) ''READ_PAIR_DUPLICATES'' = Some (Num a)"
      "map_of (snd p) ''READ_PAIRS_EXAMINED'' = Some (Num b)"
      "map_of (snd p) ''UNPAIRED_READS_EXAMINED'' = Some (Num c)"
      "map_of (snd p) ''UNPAIRED_READ_DUPLICATES'' = Some (Num d)"
      "map_of (snd p) ''READ_PAIR_OPTICAL_DUPLICATES'' = Some (Num e)"
      "map_of (snd p) ''UNMAPPED_READS'' = Some (Num g)"
      by blast
    from derive_metrics_numeric [OF this] show ?thesis by blast
  qed
  then have "\<exists>d'. derive_all E (ignore_samples E (picard_dupMetrics_data st)) = Inr d'"
    by (intro derive_all_total) blast
  then obtain d' where "derive_all E (ignore_samples E (picard_dupMetrics_data st)) = Inr d'" ..
  from parse_reports_returns [OF run this] show "\<exists>r. parse_reports E gs fs = Inr r"
    by blast
next
  assume "parse_reports E gs fs = Inr r"
  from parse_reports_final [OF this] obtain st' :: "'f state" where
    "scan_files E fs \<lparr>picard_dupMetrics_data = [], events = []\<rparr> = Inr st'"
    "derive_all E (ignore_samples E (picard_dupMetrics_data st')) = Inr (final r)"
    "returned r = length (final r)"
    by blast
  then show "\<exists>st'. scan_files E fs \<lparr>picard_dupMetrics_data = [], events = []\<rparr> = Inr st' \<and>
        list_all2 (\<lambda>p p'. fst p' = fst p \<and> derive_metrics E (snd p) = Inr (snd p'))
          (ignore_samples E (picard_dupMetrics_data st')) (final r) \<and>
        returned r = length (final r)"
    unfolding derive_all_pointwise by blast
qed

theorem derived_metrics_formulas_witness:
  "map_of good_raw ''READ_PAIR_DUPLICATES'' = Some (Num 10) \<and>
   map_of good_raw ''READ_PAIRS_EXAMINED'' = Some (Num 100) \<and>
   map_of good_raw ''UNPAIRED_READS_EXAMINED'' = Some (Num 0) \<and>
   map_of good_raw ''UNPAIRED_READ_DUPLICATES'' = Some (Num 0) \<and>
   map_of good_raw ''READ_PAIR_OPTICAL_DUPLICATES'' = Some (Num 2) \<and>
   map_of good_raw ''UNMAPPED_READS'' = Some (Num 5) \<and>
   (\<exists>m'. derive_metrics env0 good_raw = Inr m' \<and>
     map_of m' ''READS_IN_DUPLICATE_PAIRS'' = Some (Num 20) \<and>
     map_of m' ''READS_IN_UNIQUE_PAIRS'' = Some (Num 180) \<and>
     map_of m' ''READS_IN_UNIQUE_UNPAIRED'' = Some (Num 0) \<and>
     map_of m' ''READS_IN_DUPLICATE_PAIRS_OPTICAL'' = Some (Num 4) \<and>
     map_of m' ''READS_IN_DUPLICATE_PAIRS_NONOPTICAL'' = Some (Num 16) \<and>
     map_of m' ''READS_IN_DUPLICATE_UNPAIRED'' = Some (Num 0) \<and>
     map_of m' ''READS_UNMAPPED'' = Some (Num 5)) \<and>
   scan_files env0 [log_a] \<lparr>picard_dupMetrics_data = [], events = []\<rparr> = Inr state_a \<and>
   ignore_samples env0 (picard_dupMetrics_data state_a) = [(''sampleA.bam'', good_raw)] \<and>
   (\<exists>r. parse_reports env0 [] [log_a] = Inr r) \<and>
   parse_reports env0 [] [log_a] = Inr report_a \<and>
   final report_a = [(''sampleA.bam'', good_derived)] \<and>
   derive_metrics env0 good_raw = Inr good_derived \<and>
   returned report_a = length (final report_a)"
proof -
  have h: "map_of good_raw ''READ_PAIR_DUPLICATES'' = Some (Num 10)"
    "map_of good_raw ''READ_PAIRS_EXAMINED'' = Some (Num 100)"
    "map_of good_raw ''UNPAIRED_READS_EXAMINED'' = Some (Num 0)"
    "map_of good_raw ''UNPAIRED_READ_DUPLICATES'' = Some (Num 0)"
    "map_of good_raw ''READ_PAIR_OPTICAL_DUPLICATES'' = Some (Num 2)"
    "map_of good_raw ''UNMAPPED_READS'' = Some (Num 5)"
    by (simp_all add: good_raw_def)
  have ign: "ignore_samples env0 (picard_dupMetrics_data state_a) = [(''sampleA.bam'', good_raw)]"
    by (simp add: ignore_samples_def state_a_def env0_def)
  have ops: "twice env0 x = 2 * x" "float_sub env0 x y = x - y" for x y
    by (simp_all add: twice_def env0_def)
  note inst = derived_metrics_formulas [of good_raw 10 100 0 0 2 5 env0 "[log_a]" state_a
      "[] :: real collection" report_a]
  from inst h have one: "\<exists>m'. derive_metrics env0 good_raw = Inr m' \<and>
     map_of m' ''READS_IN_DUPLICATE_PAIRS'' = Some (Num 20) \<and>
     map_of m' ''READS_IN_UNIQUE_PAIRS'' = Some (Num 180) \<and>
     map_of m' ''READS_IN_UNIQUE_UNPAIRED'' = Some (Num 0) \<and>
     map_of m' ''READS_IN_DUPLICATE_PAIRS_OPTICAL'' = Some (Num 4) \<and>
     map_of m' ''READS_IN_DUPLICATE_PAIRS_NONOPTICAL'' = Some (Num 16) \<and>
     map_of m' ''READS_IN_DUPLICATE_UNPAIRED'' = Some (Num 0) \<and>
     map_of m' ''READS_UNMAPPED'' = Some (Num 5)"
    by (simp add: ops)
  from inst run_log_a obtain st' where
    "scan_files env0 [log_a] \<lparr>picard_dupMetrics_data = [], events = []\<rparr> = Inr st'"
    "list_all2 (\<lambda>p p'. fst p' = fst p \<and> derive_metrics env0 (snd p) = Inr (snd p'))
          (ignore_samples env0 (picard_dupMetrics_data st')) (final report_a)"
    "returned report_a = length (final report_a)"
    by blast
  with scan_log_a ign have two: "derive_metrics env0 good_raw = Inr good_derived"
    "returned report_a = length (final report_a)"
    by (simp_all add: report_a_def)
  have fin: "final report_a = [(''sampleA.bam'', good_derived)]"
    by (simp add: report_a_def)
  have all6: "\<forall>p\<in>set (ignore_samples env0 (picard_dupMetrics_data state_a)).
       \<exists>a b c d e g.
         map_of (snd p) ''READ_PAIR_DUPLICATES'' = Some (Num a) \<and>
         map_of (snd p) ''READ_PAIRS_EXAMINED'' = Some (Num b) \<and>
         map_of (snd p) ''UNPAIRED_READS_EXAMINED'' = Some (Num c) \<and>
         map_of (snd p) ''UNPAIRED_READ_DUPLICATES'' = Some (Num d) \<and>
         map_of (snd p) ''READ_PAIR_OPTICAL_DUPLICATES'' = Some (Num e) \<and>
         map_of (snd p) ''UNMAPPED_READS'' = Some (Num g)"
    unfolding ign using h by simp
  from inst scan_log_a all6 have three: "\<exists>r. parse_reports env0 [] [log_a] = Inr r"
    by blast
  from h one scan_log_a ign three run_log_a fin two show ?thesis by blast
qed

subsection \<open>C2: a value row shorter than its header row\<close>

text \<open>
  Claim C2, as stated: when the value row of a header row has fewer fields than the header
  row, the sample is dropped with a warning, the remaining lines and files are processed,
  and \<^verbatim>\<open>parse_reports\<close> returns a count. The loop of line 52 reads \<^verbatim>\<open>vals[i]\<close> for every
  header position and catches \<^verbatim>\<open>ValueError\<close> only: in the run below the value row of
  \<open>log_cut\<close> is cut after three fields, the run ends with \<^verbatim>\<open>IndexError\<close>, and \<open>log_a\<close> is
  never read.
\<close>

theorem short_value_row_counterexample:
  "length (split_tab (rstrip_nl (row cut_vals))) = 3 \<and>
   length (split_tab (rstrip_nl (row header_cols))) = 7 \<and>
   parse_reports env0 [] [log_cut, log_a] = Inl IndexError"
  unfolding row_cut_vals row_header_cols
  using run_cut by (simp add: cut_vals_def header_cols_def)

text \<open>
  Claim C2, amended: when the line read as the value row of a header row (the empty
  string at the end of the file) has fewer tab-separated fields than the header row,
  parsing the pair raises \<^verbatim>\<open>IndexError\<close>, whatever the name and the collection are. The
  exception is not caught: a run of \<^verbatim>\<open>parse_reports\<close> ends with \<^verbatim>\<open>IndexError\<close>, returning
  no count, exactly when among the rows that the scan of the files parses, in any file
  and any block, there is one with such a value row.
\<close>

theorem short_value_row_raises:
  "(short_row (f, n, l, v) \<longrightarrow> process_block E f n l v st = Inl IndexError) \<and>
   ((\<exists>x\<in>set (all_rows E fs). short_row x) \<longrightarrow> parse_reports E gs fs = Inl IndexError) \<and>
   (parse_reports E gs fs = Inl IndexError \<longrightarrow> (\<exists>x\<in>set (all_rows E fs). short_row x))"
proof (intro conjI impI)
  assume "short_row (f, n, l, v)"
  then show "process_block E f n l v st = Inl IndexError" by (rule process_block_short)
next
  assume "\<exists>x\<in>set (all_rows E fs). short_row x"
  then have "run_rows E (all_rows E fs) \<lparr>picard_dupMetrics_data = [], events = []\<rparr>
      = Inl IndexError"
    by (rule run_rows_short)
  then show "parse_reports E gs fs = Inl IndexError"
    by (simp add: parse_reports_IndexError scan_files_rows_init)
next
  assume "parse_reports E gs fs = Inl IndexError"
  then have "run_rows E (all_rows E fs) \<lparr>picard_dupMetrics_data = [], events = []\<rparr>
      = Inl IndexError"
    by (simp add: parse_reports_IndexError scan_files_rows_init)
  from run_rows_Inl [OF this] show "\<exists>x\<in>set (all_rows E fs). short_row x" by simp
qed

theorem short_value_row_raises_witness:
  "short_row (log_two, ''sampleC.bam'', row header_cols, row cut_vals) \<and>
   process_block env0 log_two ''sampleC.bam'' (row header_cols) (row cut_vals) state_a =
     Inl IndexError \<and>
   (log_two, ''sampleC.bam'', row header_cols, row cut_vals)
     \<in> set (all_rows env0 [log_a, log_two, log_other]) \<and>
   parse_reports env0 [] [log_a, log_two, log_other] = Inl IndexError \<and>
   (\<exists>x\<in>set (all_rows env0 [log_a, log_two, log_other]). short_row x)"
proof -
  note inst = short_value_row_raises [of log_two "''sampleC.bam''" "row header_cols"
      "row cut_vals" env0 state_a "[log_a, log_two, log_other]" "[] :: real collection"]
  have mem: "(log_two, ''sampleC.bam'', row header_cols, row cut_vals)
     \<in> set (all_rows env0 [log_a, log_two, log_other])"
    unfolding rows_of_runs by simp
  from inst short_cut_row have one:
    "process_block env0 log_two ''sampleC.bam'' (row header_cols) (row cut_vals) state_a =
       Inl IndexError"
    by blast
  from mem short_cut_row have ex: "\<exists>x\<in>set (all_rows env0 [log_a, log_two, log_other]). short_row x"
    by blast
  with inst have two: "parse_reports env0 [] [log_a, log_two, log_other] = Inl IndexError"
    by blast
  with inst have three: "\<exists>x\<in>set (all_rows env0 [log_a, log_two, log_other]). short_row x"
    by blast
  from short_cut_row one mem two three show ?thesis by blast
qed

subsection \<open>C3: records that lack an input of the derived step\<close>

text \<open>
  Claim C3, as stated: when a record that passed the no-reads test lacks one of the six
  raw fields of the derived step, or holds text in one, the derived fields of that record
  are left out, its raw fields stay in the final collection, a warning is logged, and no
  exception leaves \<^verbatim>\<open>parse_reports\<close>. Lines 98 to 104 index the record and compute
  without any handler: the table of \<open>log_few\<close> has only two columns, its record has
  reads, and the run ends with \<^verbatim>\<open>KeyError\<close> for the first field that is read.
\<close>

theorem missing_derived_input_counterexample:
  "scan_files env0 [log_few] \<lparr>picard_dupMetrics_data = [], events = []\<rparr> = Inr state_few \<and>
   picard_dupMetrics_data state_few = [(''sampleW.bam'', short_raw)] \<and>
   \<not> no_reads env0 short_raw \<and>
   map_of short_raw ''READ_PAIR_DUPLICATES'' = None \<and>
   parse_reports env0 [] [log_few] = Inl (KeyError ''READ_PAIR_DUPLICATES'')"
proof -
  have "\<not> no_reads env0 short_raw" by code_simp
  moreover have "map_of short_raw ''READ_PAIR_DUPLICATES'' = None"
    by (simp add: short_raw_def)
  ultimately show ?thesis
    using scan_log_few run_few by (simp add: state_few_def)
qed

text \<open>
  Claim C3, amended: when a record of the collection that is not filtered out lacks one
  of the six raw fields READ_PAIR_DUPLICATES, READ_PAIRS_EXAMINED, UNPAIRED_READS_EXAMINED,
  UNPAIRED_READ_DUPLICATES, READ_PAIR_OPTICAL_DUPLICATES, UNMAPPED_READS, or holds text in
  one of the first five, the derived step raises for that record, and \<^verbatim>\<open>parse_reports\<close>
  ends with an exception, \<^verbatim>\<open>KeyError\<close> for one of the six fields or \<^verbatim>\<open>TypeError\<close>: no
  count is returned and nothing is logged for it. A text in UNMAPPED_READS alone is no
  failure: with the other five fields numeric the derived step succeeds and READS_UNMAPPED
  is that text.
\<close>

theorem missing_derived_input_raises:
  "(scan_files E fs \<lparr>picard_dupMetrics_data = [], events = []\<rparr> = Inr st \<and>
    (n, m) \<in> set (picard_dupMetrics_data st) \<and> \<not> ignored E n \<and>
    ((\<exists>k\<in>set required_raw. map_of m k = None) \<or>
     (\<exists>k\<in>set arithmetic_raw. \<exists>t. map_of m k = Some (Text t))) \<longrightarrow>
      (\<exists>e. derive_metrics E m = Inl e) \<and>
      (\<exists>e. parse_reports E gs fs = Inl e \<and>
           (e = TypeError \<or> (\<exists>k\<in>set required_raw. e = KeyError k)))) \<and>
   (map_of m ''READ_PAIR_DUPLICATES'' = Some (Num rpd) \<and>
    map_of m ''READ_PAIRS_EXAMINED'' = Some (Num rpe) \<and>
    map_of m ''UNPAIRED_READS_EXAMINED'' = Some (Num ure) \<and>
    map_of m ''UNPAIRED_READ_DUPLICATES'' = Some (Num urd) \<and>
    map_of m ''READ_PAIR_OPTICAL_DUPLICATES'' = Some (Num rpod) \<and>
    map_of m ''UNMAPPED_READS'' = Some (Text t) \<longrightarrow>
      (\<exists>m'. derive_metrics E m = Inr m' \<and> map_of m' ''READS_UNMAPPED'' = Some (Text t)))"
proof (intro conjI impI)
  assume a: "scan_files E fs \<lparr>picard_dupMetrics_data = [], events = []\<rparr> = Inr st \<and>
    (n, m) \<in> set (picard_dupMetrics_data st) \<and> \<not> ignored E n \<and>
    ((\<exists>k\<in>set required_raw. map_of m k = None) \<or>
     (\<exists>k\<in>set arithmetic_raw. \<exists>t. map_of m k = Some (Text t)))"
  then have run: "scan_files E fs \<lparr>picard_dupMetrics_data = [], events = []\<rparr> = Inr st"
    and mem: "(n, m) \<in> set (ignore_samples E (picard_dupMetrics_data st))"
    and bad: "(\<exists>k\<in>set required_raw. map_of m k = None) \<or>
     (\<exists>k\<in>set arithmetic_raw. \<exists>t. map_of m k = Some (Text t))"
    by (simp_all add: ignore_samples_def)
  from derive_metrics_needs [OF bad] obtain e0 where e0: "derive_metrics E m = Inl e0" ..
  then show "\<exists>e. derive_metrics E m = Inl e" ..
  from derive_all_raises [OF mem e0] obtain e where
    e: "derive_all E (ignore_samples E (picard_dupMetrics_data st)) = Inl e" ..
  from mem have ne: "ignore_samples E (picard_dupMetrics_data st) \<noteq> []" by auto
  from run e ne have out: "parse_reports E gs fs = Inl e"
    by (simp add: parse_reports_def Let_def)
  from derive_all_Inl [OF e] obtain m1 where "derive_metrics E m1 = Inl e" by blast
  from derive_metrics_Inl [OF this] have "e = TypeError \<or> (\<exists>k\<in>set required_raw. e = KeyError k)"
    by blast
  with out show "\<exists>e. parse_reports E gs fs = Inl e \<and>
           (e = TypeError \<or> (\<exists>k\<in>set required_raw. e = KeyError k))"
    by blast
next
  assume "map_of m ''READ_PAIR_DUPLICATES'' = Some (Num rpd) \<and>
    map_of m ''READ_PAIRS_EXAMINED'' = Some (Num rpe) \<and>
    map_of m ''UNPAIRED_READS_EXAMINED'' = Some (Num ure) \<and>
    map_of m ''UNPAIRED_READ_DUPLICATES'' = Some (Num urd) \<and>
    map_of m ''READ_PAIR_OPTICAL_DUPLICATES'' = Some (Num rpod) \<and>
    map_of m ''UNMAPPED_READS'' = Some (Text t)"
  then have "derive_metrics E m =
     Inr (AList.update ''READS_UNMAPPED'' (Text t)
           (AList.update ''READS_IN_DUPLICATE_UNPAIRED'' (Num urd)
           (AList.update ''READS_IN_DUPLICATE_PAIRS_NONOPTICAL'' (Num (float_sub E (twice E rpd) (twice E rpod)))
           (AList.update ''READS_IN_DUPLICATE_PAIRS_OPTICAL'' (Num (twice E rpod))
           (AList.update ''READS_IN_UNIQUE_UNPAIRED'' (Num (float_sub E ure urd))
           (AList.update ''READS_IN_UNIQUE_PAIRS'' (Num (twice E (float_sub E rpe rpd)))
           (AList.update ''READS_IN_DUPLICATE_PAIRS'' (Num (twice E rpd)) m)))))))"
    by (intro derive_metrics_numeric) simp_all
  then show "\<exists>m'. derive_metrics E m = Inr m' \<and> map_of m' ''READS_UNMAPPED'' = Some (Text t)"
    by (simp add: update_conv')
qed

theorem missing_derived_input_raises_witness:
  "scan_files env0 [log_few] \<lparr>picard_dupMetrics_data = [], events = []\<rparr> = Inr state_few \<and>
   (''sampleW.bam'', short_raw) \<in> set (picard_dupMetrics_data state_few) \<and>
   \<not> ignored env0 ''sampleW.bam'' \<and>
   ''UNMAPPED_READS'' \<in> set required_raw \<and>
   map_of short_raw ''UNMAPPED_READS'' = None \<and>
   (\<exists>e. derive_metrics env0 short_raw = Inl e) \<and>
   (\<exists>e. parse_reports env0 [] [log_few] = Inl e \<and>
        (e = TypeError \<or> (\<exists>k\<in>set required_raw. e = KeyError k))) \<and>
   map_of text_unmapped ''UNMAPPED_READS'' = Some (Text ''n/a'') \<and>
   (\<exists>m'. derive_metrics env0 text_unmapped = Inr m' \<and>
      map_of m' ''READS_UNMAPPED'' = Some (Text ''n/a''))"
proof -
  have mem: "(''sampleW.bam'', short_raw) \<in> set (picard_dupMetrics_data state_few)"
    by (simp add: state_few_def)
  have ign: "\<not> ignored env0 ''sampleW.bam''" by (simp add: env0_def)
  have req: "''UNMAPPED_READS'' \<in> set required_raw" by (simp add: required_raw_def)
  have none: "map_of short_raw ''UNMAPPED_READS'' = None" by (simp add: short_raw_def)
  from req none have bad: "(\<exists>k\<in>set required_raw. map_of short_raw k = None) \<or>
     (\<exists>k\<in>set arithmetic_raw. \<exists>t. map_of short_raw k = Some (Text t))"
    by blast
  have tu: "map_of text_unmapped ''READ_PAIR_DUPLICATES'' = Some (Num 10)"
    "map_of text_unmapped ''READ_PAIRS_EXAMINED'' = Some (Num 100)"
    "map_of text_unmapped ''UNPAIRED_READS_EXAMINED'' = Some (Num 0)"
    "map_of text_unmapped ''UNPAIRED_READ_DUPLICATES'' = Some (Num 0)"
    "map_of text_unmapped ''READ_PAIR_OPTICAL_DUPLICATES'' = Some (Num 2)"
    "map_of text_unmapped ''UNMAPPED_READS'' = Some (Text ''n/a'')"
    by (simp_all add: text_unmapped_def)
  note one = missing_derived_input_raises [of env0 "[log_few]" state_few "''sampleW.bam''"
      short_raw "[] :: real collection", THEN conjunct1, rule_format]
  note two = missing_derived_input_raises [of env0 "[log_few]" state_few "''sampleW.bam''"
      text_unmapped "[] :: real collection" 10 100 0 0 2 "''n/a''", THEN conjunct2, rule_format]
  from one scan_log_few mem ign bad have first:
    "(\<exists>e. derive_metrics env0 short_raw = Inl e) \<and>
      (\<exists>e. parse_reports env0 [] [log_few] = Inl e \<and>
           (e = TypeError \<or> (\<exists>k\<in>set required_raw. e = KeyError k)))"
    by blast
  from two tu have second:
    "\<exists>m'. derive_metrics env0 text_unmapped = Inr m' \<and>
      map_of m' ''READS_UNMAPPED'' = Some (Text ''n/a'')"
    by blast
  from scan_log_few mem ign req none first tu(6) second show ?thesis by blast
qed

subsection \<open>C4: records without reads\<close>

text \<open>
  Claim C4. No record whose READ_PAIRS_EXAMINED and UNPAIRED_READS_EXAMINED are both zero
  (each taken as 0 when absent) is in the final collection of a run of \<^verbatim>\<open>parse_reports\<close>
  that returns; and when the record that a header row and its value row parse to is such
  a record, it is removed from the collection as soon as the pair is parsed, and the
  warning of line 61 is logged.
\<close>

theorem no_reads_never_final:
  "(parse_reports E gs fs = Inr r \<longrightarrow> (\<forall>p\<in>set (final r). \<not> no_reads E (snd p))) \<and>
   (fill_fields (pyfloat E) n 0 (split_tab (rstrip_nl l)) (split_tab (rstrip_nl v))
        [(n, [])] = Inr [(n, m)] \<and> no_reads E m \<longrightarrow>
     (\<exists>st'. process_block E f n l v st = Inr st' \<and>
        map_of (picard_dupMetrics_data st') n = None \<and>
        Warn (msg_no_reads n) \<in> set (events st')))"
proof (intro conjI impI ballI)
  fix p
  assume run: "parse_reports E gs fs = Inr r" and p: "p \<in> set (final r)"
  from p have "(fst p, snd p) \<in> set (final r)" by simp
  from final_origin [OF run this] obtain st m0 where
    "scan_files E fs \<lparr>picard_dupMetrics_data = [], events = []\<rparr> = Inr st"
    "(fst p, m0) \<in> set (picard_dupMetrics_data st)" "derive_metrics E m0 = Inr (snd p)"
    by blast
  with scanned_have_reads derive_metrics_no_reads show "\<not> no_reads E (snd p)"
    by blast
next
  assume "fill_fields (pyfloat E) n 0 (split_tab (rstrip_nl l)) (split_tab (rstrip_nl v))
        [(n, [])] = Inr [(n, m)] \<and> no_reads E m"
  then have parsed: "fill_fields (pyfloat E) n 0 (split_tab (rstrip_nl l))
        (split_tab (rstrip_nl v)) [(n, [])] = Inr [(n, m)]" and zero: "no_reads E m"
    by simp_all
  show "\<exists>st'. process_block E f n l v st = Inr st' \<and>
        map_of (picard_dupMetrics_data st') n = None \<and>
        Warn (msg_no_reads n) \<in> set (events st')"
    using zero by (simp add: process_block_parsed [OF parsed] delete_conv')
qed

theorem no_reads_never_final_witness:
  "parse_reports env0 [] [log_a] = Inr report_a \<and>
   (''sampleA.bam'', good_derived) \<in> set (final report_a) \<and>
   \<not> no_reads env0 good_derived \<and>
   fill_fields (pyfloat env0) ''sampleA.bam'' 0 (split_tab (rstrip_nl (row header_cols)))
     (split_tab (rstrip_nl (row zero_vals))) [(''sampleA.bam'', [])] =
     Inr [(''sampleA.bam'', zero_raw)] \<and>
   no_reads env0 zero_raw \<and>
   (\<exists>st'. process_block env0 log_zero ''sampleA.bam'' (row header_cols) (row zero_vals) state_a
            = Inr st' \<and>
      map_of (picard_dupMetrics_data st') ''sampleA.bam'' = None \<and>
      Warn (msg_no_reads ''sampleA.bam'') \<in> set (events st'))"
proof -
  have mem: "(''sampleA.bam'', good_derived) \<in> set (final report_a)"
    by (simp add: report_a_def)
  have parsed: "fill_fields (pyfloat env0) ''sampleA.bam'' 0
     (split_tab (rstrip_nl (row header_cols))) (split_tab (rstrip_nl (row zero_vals)))
     [(''sampleA.bam'', [])] = Inr [(''sampleA.bam'', zero_raw)]"
    by (simp add: pyfloat_env0 row_header_cols row_zero_vals parse_zero_vals)
  note inst = no_reads_never_final [of env0 "[] :: real collection" "[log_a]" report_a "''sampleA.bam''"
      "row header_cols" "row zero_vals" zero_raw log_zero state_a]
  from inst run_log_a have "\<forall>p\<in>set (final report_a). \<not> no_reads env0 (snd p)" by blast
  from bspec [OF this mem] have one: "\<not> no_reads env0 good_derived" by simp
  from inst parsed no_reads_zero_raw have two:
    "\<exists>st'. process_block env0 log_zero ''sampleA.bam'' (row header_cols) (row zero_vals) state_a
            = Inr st' \<and>
      map_of (picard_dupMetrics_data st') ''sampleA.bam'' = None \<and>
      Warn (msg_no_reads ''sampleA.bam'') \<in> set (events st')"
    by blast
  from run_log_a mem one parsed no_reads_zero_raw two show ?thesis by blast
qed

subsection \<open>C5: one record per sample name\<close>

text \<open>
  Claim C5, as stated: every name of the final collection has exactly one record, and
  when two parsed blocks resolve to the same name, the entry of that name holds the
  values of the block parsed later and a duplicate-name warning is emitted. Two runs
  show where the code differs. In the first, \<open>log_a\<close> and \<open>log_other\<close> both hold a block
  with reads for \<open>sampleA.bam\<close>: the later block wins, and what is logged for the
  duplicate is the debug message of line 47; no warning is logged. In the second the
  later block, that of \<open>log_zero\<close>, has no reads: the debug message is logged, the record
  is dropped by line 60, and the final collection has no entry for the name at all.
\<close>

theorem duplicate_warning_counterexample:
  "parse_reports env0 [] [log_a, log_other] = Inr report_a_other \<and>
   final report_a_other = [(''sampleA.bam'', other_derived)] \<and>
   logged report_a_other =
     [DataSource ''a.txt'' ''sampleA.bam'', Debug (msg_duplicate ''o.txt'' ''sampleA.bam''),
      DataSource ''o.txt'' ''sampleA.bam''] \<and>
   Warn (msg_duplicate ''o.txt'' ''sampleA.bam'') \<notin> set (logged report_a_other) \<and>
   parse_reports env0 [] [log_a, log_zero] = Inr report_a_zero \<and>
   final report_a_zero = [] \<and>
   map_of (final report_a_zero) ''sampleA.bam'' = None \<and>
   Debug (msg_duplicate ''z.txt'' ''sampleA.bam'') \<in> set (logged report_a_zero)"
  using run_a_other run_a_zero by (simp add: report_a_other_def report_a_zero_def)

text \<open>
  Claim C5, amended: in the final collection of a run that returns, every name has
  exactly one record, and the entry of a name is decided by the block parsed last for
  that name, over all files in the order of the files and all blocks in the order of
  the lines: when that block has reads and the name is not filtered out, the entry is
  the record of that block with its derived fields, and no field of an earlier block;
  when that block has no reads, or the name is filtered out, or no block was parsed for
  the name, there is no entry. Each time a header row and its value row are parsed for a
  name, a duplicate-name message is logged, at debug level, exactly when the name has an
  entry at that moment, and the entries of all other names stay as they are.
\<close>

theorem last_block_wins:
  fixes E :: "'f env"
  shows
  "(parse_reports E gs fs = Inr r \<longrightarrow>
      distinct (map fst (final r)) \<and>
      (\<forall>k. (\<forall>x\<in>set (all_rows E fs). row_name x \<noteq> k) \<longrightarrow> map_of (final r) k = None) \<and>
      (\<forall>before f n l v after.
         all_rows E fs = before @ (f, n, l, v) # after \<and>
         (\<forall>x\<in>set after. row_name x \<noteq> n) \<longrightarrow>
         (\<exists>m. fill_fields (pyfloat E) n 0 (split_tab (rstrip_nl l)) (split_tab (rstrip_nl v))
                 [(n, [])] = Inr [(n, m)] \<and>
              (if no_reads E m \<or> ignored E n then map_of (final r) n = None
               else \<exists>m'. derive_metrics E m = Inr m' \<and> map_of (final r) n = Some m')))) \<and>
   (fill_fields (pyfloat E) n 0 (split_tab (rstrip_nl l)) (split_tab (rstrip_nl v))
        [(n, [])] = Inr [(n, m)] \<longrightarrow>
     (\<exists>st'. process_block E f n l v st = Inr st' \<and>
        map_of (picard_dupMetrics_data st') n = (if no_reads E m then None else Some m) \<and>
        (\<forall>n'. n' \<noteq> n \<longrightarrow>
           map_of (picard_dupMetrics_data st') n' = map_of (picard_dupMetrics_data st) n') \<and>
        events st' =
          events st @
          (if map_of (picard_dupMetrics_data st) n \<noteq> None
           then [Debug (msg_duplicate (fn f) n)] else []) @
          [DataSource (fn f) n] @
          (if no_reads E m then [Warn (msg_no_reads n)] else [])))"
proof (intro conjI impI allI)
  assume "parse_reports E gs fs = Inr r"
  then show "distinct (map fst (final r))" by (rule final_distinct)
next
  fix k
  assume run: "parse_reports E gs fs = Inr r"
    and none: "\<forall>x\<in>set (all_rows E fs). row_name x \<noteq> k"
  from parse_reports_final [OF run] obtain st :: "'f state" where
    scan: "scan_files E fs \<lparr>picard_dupMetrics_data = [], events = []\<rparr> = Inr st" and
    da: "derive_all E (ignore_samples E (picard_dupMetrics_data st)) = Inr (final r)"
    by blast
  from scan have "run_rows E (all_rows E fs) \<lparr>picard_dupMetrics_data = [], events = []\<rparr>
      = Inr st"
    by (simp add: scan_files_rows_init)
  from run_rows_other [OF this none] have "map_of (picard_dupMetrics_data st) k = None"
    by simp
  then have "map_of (ignore_samples E (picard_dupMetrics_data st)) k = None"
    by (simp add: map_of_ignore_samples)
  with derive_all_map_of [OF da, of k] show "map_of (final r) k = None" by blast
next
  fix before f n l v after
  assume run: "parse_reports E gs fs = Inr r"
    and a: "all_rows E fs = before @ (f, n, l, v) # after \<and>
         (\<forall>x\<in>set after. row_name x \<noteq> n)"
  from parse_reports_final [OF run] obtain st :: "'f state" where
    scan: "scan_files E fs \<lparr>picard_dupMetrics_data = [], events = []\<rparr> = Inr st" and
    da: "derive_all E (ignore_samples E (picard_dupMetrics_data st)) = Inr (final r)"
    by blast
  from scan a have rr: "run_rows E (before @ (f, n, l, v) # after)
      \<lparr>picard_dupMetrics_data = [], events = []\<rparr> = Inr st"
    by (simp add: scan_files_rows_init)
  from a have later: "\<forall>x\<in>set after. row_name x \<noteq> n" by simp
  from run_rows_last [OF rr later] obtain m where
    parsed: "fill_fields (pyfloat E) n 0 (split_tab (rstrip_nl l)) (split_tab (rstrip_nl v))
               [(n, [])] = Inr [(n, m)]" and
    entry: "map_of (picard_dupMetrics_data st) n = (if no_reads E m then None else Some m)"
    by blast
  have "if no_reads E m \<or> ignored E n then map_of (final r) n = None
        else \<exists>m'. derive_metrics E m = Inr m' \<and> map_of (final r) n = Some m'"
  proof (cases "no_reads E m \<or> ignored E n")
    case True
    with entry have "map_of (ignore_samples E (picard_dupMetrics_data st)) n = None"
      by (auto simp: map_of_ignore_samples)
    with derive_all_map_of [OF da, of n] True show ?thesis by auto
  next
    case False
    with entry have "map_of (ignore_samples E (picard_dupMetrics_data st)) n = Some m"
      by (auto simp: map_of_ignore_samples)
    with derive_all_map_of [OF da, of n] False show ?thesis by auto
  qed
  with parsed show "\<exists>m. fill_fields (pyfloat E) n 0 (split_tab (rstrip_nl l))
        (split_tab (rstrip_nl v)) [(n, [])] = Inr [(n, m)] \<and>
      (if no_reads E m \<or> ignored E n then map_of (final r) n = None
       else \<exists>m'. derive_metrics E m = Inr m' \<and> map_of (final r) n = Some m')"
    by blast
next
  assume parsed: "fill_fields (pyfloat E) n 0 (split_tab (rstrip_nl l))
        (split_tab (rstrip_nl v)) [(n, [])] = Inr [(n, m)]"
  show "\<exists>st'. process_block E f n l v st = Inr st' \<and>
        map_of (picard_dupMetrics_data st') n = (if no_reads E m then None else Some m) \<and>
        (\<forall>n'. n' \<noteq> n \<longrightarrow>
           map_of (picard_dupMetrics_data st') n' = map_of (picard_dupMetrics_data st) n') \<and>
        events st' =
          events st @
          (if map_of (picard_dupMetrics_data st) n \<noteq> None
           then [Debug (msg_duplicate (fn f) n)] else []) @
          [DataSource (fn f) n] @
          (if no_reads E m then [Warn (msg_no_reads n)] else [])"
    by (simp add: process_block_parsed [OF parsed] delete_conv' update_conv')
qed

theorem last_block_wins_witness:
  "parse_reports env0 [] [log_a, log_other] = Inr report_a_other \<and>
   distinct (map fst (final report_a_other)) \<and>
   map_of (final report_a_other) ''sampleB.bam'' = None \<and>
   all_rows env0 [log_a, log_other] =
     [(log_a, ''sampleA.bam'', row header_cols, row good_vals)] @
     (log_other, ''sampleA.bam'', row header_cols, row other_vals) # [] \<and>
   fill_fields (pyfloat env0) ''sampleA.bam'' 0 (split_tab (rstrip_nl (row header_cols)))
     (split_tab (rstrip_nl (row other_vals))) [(''sampleA.bam'', [])] =
     Inr [(''sampleA.bam'', other_raw)] \<and>
   \<not> no_reads env0 other_raw \<and> \<not> ignored env0 ''sampleA.bam'' \<and>
   (\<exists>m'. derive_metrics env0 other_raw = Inr m' \<and>
         map_of (final report_a_other) ''sampleA.bam'' = Some m') \<and>
   map_of (final report_a_other) ''sampleA.bam'' = Some other_derived \<and>
   (\<exists>st'. process_block env0 log_other ''sampleA.bam'' (row header_cols) (row other_vals)
            state_a = Inr st' \<and>
      map_of (picard_dupMetrics_data st') ''sampleA.bam'' = Some other_raw \<and>
      events st' =
        [DataSource ''a.txt'' ''sampleA.bam'', Debug (msg_duplicate ''o.txt'' ''sampleA.bam''),
         DataSource ''o.txt'' ''sampleA.bam''])"
proof -
  have parsed: "fill_fields (pyfloat env0) ''sampleA.bam'' 0
     (split_tab (rstrip_nl (row header_cols))) (split_tab (rstrip_nl (row other_vals)))
     [(''sampleA.bam'', [])] = Inr [(''sampleA.bam'', other_raw)]"
    by (simp add: pyfloat_env0 row_header_cols row_other_vals parse_other_vals)
  have rows: "all_rows env0 [log_a, log_other] =
     [(log_a, ''sampleA.bam'', row header_cols, row good_vals)] @
     (log_other, ''sampleA.bam'', row header_cols, row other_vals) # []"
    unfolding rows_of_runs by simp
  have noB: "\<forall>x\<in>set (all_rows env0 [log_a, log_other]). row_name x \<noteq> ''sampleB.bam''"
    unfolding rows_of_runs by (simp add: row_name_def)
  have ign: "\<not> ignored env0 ''sampleA.bam''" by (simp add: env0_def)
  have later: "\<forall>x\<in>set []. row_name x \<noteq> ''sampleA.bam''"
    by simp
  note inst = last_block_wins [of env0 "[] :: real collection" "[log_a, log_other]"
      report_a_other "''sampleA.bam''" "row header_cols" "row other_vals" other_raw
      log_other state_a]
  note run_level = inst [THEN conjunct1, rule_format, OF run_a_other]
  note one = run_level [THEN conjunct1]
  note absent = run_level [THEN conjunct2, THEN conjunct1, rule_format, OF noB [rule_format]]
  note last_rule = run_level [THEN conjunct2, THEN conjunct2, rule_format,
      OF conjI [OF rows later]]
  from last_rule obtain m where
    m: "fill_fields (pyfloat env0) ''sampleA.bam'' 0 (split_tab (rstrip_nl (row header_cols)))
         (split_tab (rstrip_nl (row other_vals))) [(''sampleA.bam'', [])] =
         Inr [(''sampleA.bam'', m)]"
    and e: "if no_reads env0 m \<or> ignored env0 ''sampleA.bam''
        then map_of (final report_a_other) ''sampleA.bam'' = None
        else \<exists>m'. derive_metrics env0 m = Inr m' \<and>
               map_of (final report_a_other) ''sampleA.bam'' = Some m'"
    by blast
  from m parsed have "m = other_raw" by simp
  with e reads_other_raw ign have last:
    "\<exists>m'. derive_metrics env0 other_raw = Inr m' \<and>
         map_of (final report_a_other) ''sampleA.bam'' = Some m'"
    by simp
  have fin: "map_of (final report_a_other) ''sampleA.bam'' = Some other_derived"
    by (simp add: report_a_other_def)
  from inst [THEN conjunct2, rule_format, OF parsed] obtain st' where
    "process_block env0 log_other ''sampleA.bam'' (row header_cols) (row other_vals)
            state_a = Inr st'"
    "map_of (picard_dupMetrics_data st') ''sampleA.bam'' =
       (if no_reads env0 other_raw then None else Some other_raw)"
    "events st' =
          events state_a @
          (if map_of (picard_dupMetrics_data state_a) ''sampleA.bam'' \<noteq> None
           then [Debug (msg_duplicate (fn log_other) ''sampleA.bam'')] else []) @
          [DataSource (fn log_other) ''sampleA.bam''] @
          (if no_reads env0 other_raw then [Warn (msg_no_reads ''sampleA.bam'')] else [])"
    by blast
  then have two: "\<exists>st'. process_block env0 log_other ''sampleA.bam'' (row header_cols)
            (row other_vals) state_a = Inr st' \<and>
      map_of (picard_dupMetrics_data st') ''sampleA.bam'' = Some other_raw \<and>
      events st' =
        [DataSource ''a.txt'' ''sampleA.bam'', Debug (msg_duplicate ''o.txt'' ''sampleA.bam''),
         DataSource ''o.txt'' ''sampleA.bam'']"
    by (simp add: reads_other_raw state_a_def log_other_def log_with_def)
  from run_a_other one absent rows parsed reads_other_raw ign last fin two
  show ?thesis by blast
qed

subsection \<open>C6: header lines without a pending sample name\<close>




subsection \<open>C7: the categories of the bar plot\<close>

text \<open>
  Claim C7, as stated: for every surviving sample the chart input lists the seven derived
  fields in the order of their computation, each labelled by its name without the
  prefixes READS_ and IN_, in title case. On the code the list has six entries:
  READS_IN_DUPLICATE_PAIRS, the sum of the optical and the non-optical duplicate pairs, is
  not plotted. The run on \<open>log_a\<close> shows it.
\<close>

theorem plot_seven_fields_counterexample:
  "parse_reports env0 [] [log_a] = Inr report_a \<and>
   plot report_a = Some plot_keys \<and>
   length plot_keys = 6 \<and>
   map fst plot_keys \<noteq> derived_names \<and>
   ''READS_IN_DUPLICATE_PAIRS'' \<notin> set (map fst plot_keys)"
  using run_log_a by (simp add: report_a_def plot_keys_value derived_names_def)

text \<open>
  Claim C7, amended: whenever \<^verbatim>\<open>parse_reports\<close> returns with at least one sample, the
  chart input lists six derived fields, those of the computation without
  READS_IN_DUPLICATE_PAIRS and in the order of the computation, with the labels Unique
  Pairs, Unique Unpaired, Duplicate Pairs Optical, Duplicate Pairs Nonoptical, Duplicate
  Unpaired and Unmapped (the field name with every READS_ and IN_ removed, underscores
  turned into spaces, in title case); every sample of the final collection has each of
  the six fields.
\<close>

theorem plot_categories:
  fixes E :: "'f env"
  assumes "parse_reports E gs fs = Inr r" and "0 < returned r"
  shows "plot r =
      Some [(''READS_IN_UNIQUE_PAIRS'', ''Unique Pairs''),
            (''READS_IN_UNIQUE_UNPAIRED'', ''Unique Unpaired''),
            (''READS_IN_DUPLICATE_PAIRS_OPTICAL'', ''Duplicate Pairs Optical''),
            (''READS_IN_DUPLICATE_PAIRS_NONOPTICAL'', ''Duplicate Pairs Nonoptical''),
            (''READS_IN_DUPLICATE_UNPAIRED'', ''Duplicate Unpaired''),
            (''READS_UNMAPPED'', ''Unmapped'')] \<and>
    (\<forall>p\<in>set (final r). \<forall>k\<in>set keys_r. map_of (snd p) k \<noteq> None)"
proof -
  from parse_reports_Inr [OF assms(1)] obtain st :: "'f state" where
    st: "if ignore_samples E (picard_dupMetrics_data st) = []
     then final r = [] \<and> plot r = None \<and> returned r = 0
     else derive_all E (ignore_samples E (picard_dupMetrics_data st)) = Inr (final r) \<and>
          plot r = Some plot_keys \<and> returned r = length (final r)"
    by blast
  from st assms(2) have
    da: "derive_all E (ignore_samples E (picard_dupMetrics_data st)) = Inr (final r)"
    and pl: "plot r = Some plot_keys"
    by (simp_all split: if_splits)
  have "map_of m' k \<noteq> None" if "(n, m') \<in> set (final r)" and "k \<in> set keys_r" for n m' k
  proof -
    from derive_all_member [OF da that(1)] obtain m where "derive_metrics E m = Inr m'" by blast
    from derive_metrics_Inr [OF this] that(2) show ?thesis
      by (auto simp: keys_r_def update_conv')
  qed
  then have "\<forall>p\<in>set (final r). \<forall>k\<in>set keys_r. map_of (snd p) k \<noteq> None"
    by auto
  with pl show ?thesis by (simp add: plot_keys_value)
qed

theorem plot_categories_witness:
  "parse_reports env0 [] [log_a] = Inr report_a \<and> 0 < returned report_a \<and>
   plot report_a =
      Some [(''READS_IN_UNIQUE_PAIRS'', ''Unique Pairs''),
            (''READS_IN_UNIQUE_UNPAIRED'', ''Unique Unpaired''),
            (''READS_IN_DUPLICATE_PAIRS_OPTICAL'', ''Duplicate Pairs Optical''),
            (''READS_IN_DUPLICATE_PAIRS_NONOPTICAL'', ''Duplicate Pairs Nonoptical''),
            (''READS_IN_DUPLICATE_UNPAIRED'', ''Duplicate Unpaired''),
            (''READS_UNMAPPED'', ''Unmapped'')] \<and>
   map_of good_derived ''READS_UNMAPPED'' \<noteq> None"
proof -
  have pos: "0 < returned report_a" by (simp add: report_a_def)
  have mem: "(''sampleA.bam'', good_derived) \<in> set (final report_a)"
    by (simp add: report_a_def)
  have key: "''READS_UNMAPPED'' \<in> set keys_r" by (simp add: keys_r_def)
  note main = plot_categories [OF run_log_a pos]
  from main have "\<forall>p\<in>set (final report_a). \<forall>k\<in>set keys_r. map_of (snd p) k \<noteq> None"
    by (rule conjunct2)
  from bspec [OF bspec [OF this mem] key] have "map_of good_derived ''READS_UNMAPPED'' \<noteq> None"
    by simp
  with main run_log_a pos show ?thesis by simp
qed

subsection \<open>C8: header names and values by position\<close>

text \<open>
  Claim C8, as stated: for a header row and a value row of equally many fields, the
  record has every header name as a key, bound to the coercion of the value at the same
  position (the float when \<^verbatim>\<open>float()\<close> succeeds, the text otherwise), and no other
  keys. A name that stands twice in the header row is written twice, and the later value
  stays: in the table below UNPAIRED_READ_DUPLICATES stands at positions 0 and 1 with the
  values 1 and x, and the record binds it to the text x, not to the number 1 of
  position 0.
\<close>

theorem repeated_header_name_counterexample:
  "length (split_tab (rstrip_nl (row twice_cols))) =
     length (split_tab (rstrip_nl (row twice_vals))) \<and>
   fill_fields float_digits ''s'' 0 (split_tab (rstrip_nl (row twice_cols)))
     (split_tab (rstrip_nl (row twice_vals))) (AList.update ''s'' [] []) =
     Inr [(''s'', [(''UNPAIRED_READ_DUPLICATES'', Text ''x''),
                   (''READ_PAIRS_EXAMINED'', Num 7)])] \<and>
   split_tab (rstrip_nl (row twice_cols)) ! 0 = ''UNPAIRED_READ_DUPLICATES'' \<and>
   coerce float_digits (split_tab (rstrip_nl (row twice_vals)) ! 0) = Num 1 \<and>
   map_of [(''UNPAIRED_READ_DUPLICATES'', Text ''x''), (''READ_PAIRS_EXAMINED'', Num (7 :: real))]
     ''UNPAIRED_READ_DUPLICATES'' \<noteq> Some (Num 1)"
  unfolding row_twice_cols row_twice_vals by code_simp

text \<open>
  Claim C8, amended: for a header row and a value row of equally many fields, the parse
  succeeds, the keys of the record are exactly the header names, and every header name is
  bound to the coercion (the float when \<^verbatim>\<open>float()\<close> succeeds, the text itself otherwise)
  of the value at the position of the last occurrence of the name in the header row; for
  a header row without repeated names that is the value at the position of the name.
\<close>

theorem header_value_pairing:
  assumes "length keys = length vals"
  shows "\<exists>r. fill_fields fl n 0 keys vals (AList.update n [] d) = Inr (AList.update n r d) \<and>
     fst ` set r = set keys \<and>
     (\<forall>i<length keys. keys ! i \<notin> set (drop (Suc i) keys) \<longrightarrow>
        map_of r (keys ! i) =
          Some (case fl (vals ! i) of Some x \<Rightarrow> Num x | None \<Rightarrow> Text (vals ! i)))"
proof -
  let ?vs = "map (coerce fl) (take (length keys) vals)"
  let ?r = "AList.updates keys ?vs []"
  have len: "length keys = length ?vs" using assms by simp
  have run: "fill_fields fl n 0 keys vals (AList.update n [] d) = Inr (AList.update n ?r d)"
    using assms by (simp add: fill_fields_fresh)
  have keys: "fst ` set ?r = set keys"
    using keys_updates [OF len, of "[]"] by simp
  have bound: "map_of ?r (keys ! i) =
      Some (case fl (vals ! i) of Some x \<Rightarrow> Num x | None \<Rightarrow> Text (vals ! i))"
    if "i < length keys" "keys ! i \<notin> set (drop (Suc i) keys)" for i
  proof -
    have "map_of ?r (keys ! i) = Some (?vs ! i)"
      unfolding updates_conv'
      using len that by (rule map_upds_last_occurrence)
    also have "?vs ! i = coerce fl (vals ! i)"
      using that(1) assms by simp
    finally have e: "map_of ?r (keys ! i) = Some (coerce fl (vals ! i))" .
    show ?thesis unfolding e by (simp add: coerce_def)
  qed
  from run keys bound show ?thesis by blast
qed

theorem header_value_pairing_witness:
  "length header_cols = length good_vals \<and>
   (\<exists>r. fill_fields float_digits ''sampleA.bam'' 0 header_cols good_vals
           (AList.update ''sampleA.bam'' [] []) = Inr (AList.update ''sampleA.bam'' r []) \<and>
      fst ` set r = set header_cols \<and>
      map_of r ''LIBRARY'' = Some (Text ''lib1'') \<and>
      map_of r ''READ_PAIRS_EXAMINED'' = Some (Num 100))"
proof -
  have len: "length header_cols = length good_vals"
    by (simp add: header_cols_def good_vals_def)
  from header_value_pairing [OF len, of float_digits "''sampleA.bam''" "[]"] obtain r where
    run: "fill_fields float_digits ''sampleA.bam'' 0 header_cols good_vals
           (AList.update ''sampleA.bam'' [] []) = Inr (AList.update ''sampleA.bam'' r [])"
    and keys: "fst ` set r = set header_cols"
    and bound: "\<forall>i<length header_cols. header_cols ! i \<notin> set (drop (Suc i) header_cols) \<longrightarrow>
        map_of r (header_cols ! i) =
          Some (case float_digits (good_vals ! i) of Some x \<Rightarrow> Num x
                | None \<Rightarrow> Text (good_vals ! i))"
    by blast
  have i0: "0 < length header_cols" "header_cols ! 0 \<notin> set (drop (Suc 0) header_cols)"
    "header_cols ! 0 = ''LIBRARY''" "float_digits (good_vals ! 0) = None"
    "good_vals ! 0 = ''lib1''"
    by code_simp+
  have i2: "2 < length header_cols" "header_cols ! 2 \<notin> set (drop (Suc 2) header_cols)"
    "header_cols ! 2 = ''READ_PAIRS_EXAMINED''" "float_digits (good_vals ! 2) = Some 100"
    by code_simp+
  from bound i0 have b0: "map_of r ''LIBRARY'' = Some (Text ''lib1'')"
    by (metis option.simps(4))
  from bound i2 have b2: "map_of r ''READ_PAIRS_EXAMINED'' = Some (Num 100)"
    by (metis option.simps(5))
  from len run keys b0 b2 show ?thesis by blast
qed

subsection \<open>C9: a header line before any block start\<close>




subsection \<open>C10: a later block replaces the record\<close>

text \<open>
  Claim C10. When a header row and its value row are parsed for a name that already has a
  record, the entry the parse leaves under that name is the record built from the empty
  record by this pair alone: its fields are exactly the names of the header row, no field
  of the earlier record outside the header row is in it, and the same entry results
  whatever the earlier record was.
\<close>

theorem block_replaces_record:
  assumes "map_of (picard_dupMetrics_data st) n = Some old"
    and "process_block E f n l v st = Inr st'"
    and "map_of (picard_dupMetrics_data st') n = Some m"
  shows "fill_fields (pyfloat E) n 0 (split_tab (rstrip_nl l)) (split_tab (rstrip_nl v))
           [(n, [])] = Inr [(n, m)] \<and>
     fst ` set m = set (split_tab (rstrip_nl l)) \<and>
     (\<forall>k. k \<notin> set (split_tab (rstrip_nl l)) \<longrightarrow> map_of m k = None) \<and>
     (\<forall>old'. \<exists>st''.
        process_block E f n l v
          (st\<lparr>picard_dupMetrics_data := AList.update n old' (picard_dupMetrics_data st)\<rparr>)
          = Inr st'' \<and>
        map_of (picard_dupMetrics_data st'') n = Some m)"
proof -
  have parsed: "fill_fields (pyfloat E) n 0 (split_tab (rstrip_nl l))
       (split_tab (rstrip_nl v)) [(n, [])] = Inr [(n, m)]"
    using assms(2,3) by (rule process_block_entry)
  have keys: "fst ` set m = set (split_tab (rstrip_nl l))"
    using parsed by (rule fill_fields_keys)
  have none: "map_of m k = None" if "k \<notin> set (split_tab (rstrip_nl l))" for k
    using that keys by (simp add: map_of_eq_None_iff)
  have reads: "\<not> no_reads E m"
    using assms(2,3) by (auto simp: process_block_parsed [OF parsed] delete_conv' split: if_splits)
  have "\<exists>st''. process_block E f n l v
          (st\<lparr>picard_dupMetrics_data := AList.update n old' (picard_dupMetrics_data st)\<rparr>)
          = Inr st'' \<and>
        map_of (picard_dupMetrics_data st'') n = Some m" for old'
    using reads by (simp add: process_block_parsed [OF parsed] update_conv')
  with parsed keys none show ?thesis by blast
qed

theorem block_replaces_record_witness:
  "map_of (picard_dupMetrics_data state_a) ''sampleA.bam'' = Some good_raw \<and>
   process_block env0 log_other ''sampleA.bam'' (row short_cols) (row short_vals) state_a =
     Inr \<lparr>picard_dupMetrics_data = [(''sampleA.bam'', short_raw)],
          events = [DataSource ''a.txt'' ''sampleA.bam'',
                    Debug (msg_duplicate ''o.txt'' ''sampleA.bam''),
                    DataSource ''o.txt'' ''sampleA.bam'']\<rparr> \<and>
   map_of good_raw ''LIBRARY'' = Some (Text ''lib1'') \<and>
   ''LIBRARY'' \<notin> set (split_tab (rstrip_nl (row short_cols))) \<and>
   map_of short_raw ''LIBRARY'' = None \<and>
   fst ` set short_raw = set (split_tab (rstrip_nl (row short_cols)))"
proof -
  let ?st' = "\<lparr>picard_dupMetrics_data = [(''sampleA.bam'', short_raw)],
          events = [DataSource ''a.txt'' ''sampleA.bam'',
                    Debug (msg_duplicate ''o.txt'' ''sampleA.bam''),
                    DataSource ''o.txt'' ''sampleA.bam'']\<rparr>"
  have old: "map_of (picard_dupMetrics_data state_a) ''sampleA.bam'' = Some good_raw"
    by (simp add: state_a_def)
  have run: "process_block env0 log_other ''sampleA.bam'' (row short_cols) (row short_vals)
      state_a = Inr ?st'"
    by code_simp
  have new: "map_of (picard_dupMetrics_data ?st') ''sampleA.bam'' = Some short_raw"
    by simp
  have lib: "map_of good_raw ''LIBRARY'' = Some (Text ''lib1'')"
    by (simp add: good_raw_def)
  have notin: "''LIBRARY'' \<notin> set (split_tab (rstrip_nl (row short_cols)))"
    unfolding row_short_cols by (simp add: short_cols_def)
  note inst = block_replaces_record [OF old run new]
  from inst notin have gone: "map_of short_raw ''LIBRARY'' = None" by blast
  from inst have keys: "fst ` set short_raw = set (split_tab (rstrip_nl (row short_cols)))"
    by blast
  from old run lib notin gone keys show ?thesis by blast
qed

end
